theory Spec2Isabelle
  imports Complex_Main "HOL-Library.Word" "HOL-Library.Log_Nat" "HOL-Library.Multiset"
    "HOL-Library.Code_Target_Numeral"
begin

unbundle bit_operations_syntax

section \<open>Data model of the hair asset (hair\_style.cc)\<close>

text \<open>
  The asset class \<open>HairStyle\<close> owns a fixed-size file header and seven attribute
  arrays. Everything below is polymorphic in the type \<open>'f\<close> that stands for the C++
  \<open>float\<close>: the binary codec instantiates it with \<open>32 word\<close> (the bit pattern
  of the value, since the codec dumps raw bytes), the geometric operations with
  \<open>real\<close> (rounding, infinities and NaN are outside that instance, and every place
  where the source divides by a quantity that can be zero is written out).
  Where rounding decides a count or an index, in the counts and in the draw of
  \<open>reduce\<close>, it is written out as well.
  Unsigned 16/32/64-bit integers are words; \<open>std::size_t\<close> values are natural numbers.
\<close>

type_synonym byte = "8 word"
type_synonym u16 = "16 word"
type_synonym u32 = "32 word"
type_synonym u64 = "64 word"

datatype 'f vec3 = Vec3 (vx: 'f) (vy: 'f) (vz: 'f)

datatype 'f vec4 = Vec4 (xyz: "'f vec3") (w4: 'f)

datatype Error =
    NoneError
  | OpeningFile
  | ReadingFileHeader
  | InvalidSignature
  | ReadingSegments
  | ReadingVertices
  | ReadingThickness
  | ReadingTransparency
  | ReadingColor
  | ReadingTangents
  | ReadingIndices
  | InvalidFormat
  | WritingFileHeader
  | WritingSegments
  | WritingVertices
  | WritingThickness
  | WritingTransparency
  | WritingColor
  | WritingTangents
  | WritingIndices

text \<open>The presence bitfield \<open>file_header.field\<close>; the bit members carry the suffix
  \<open>_bit\<close> because the class has query methods of the same names.\<close>

record BitField =
  has_segments_bit :: bool
  has_vertices_bit :: bool
  has_thickness_bit :: bool
  has_transparency_bit :: bool
  has_color_bit :: bool
  has_tangents_bit :: bool
  has_indices_bit :: bool
  has_bounding_box_bit :: bool
  future_extension :: nat

record 'f FileHeader =
  signature :: "char \<times> char \<times> char \<times> char"
  strand_count :: u32
  vertex_count :: u32
  field :: BitField
  default_segment_count :: u32
  default_thickness :: 'f
  default_transparency :: 'f
  default_color :: "'f vec3"
  bounding_box_min :: "'f vec3"
  bounding_box_max :: "'f vec3"
  information :: "byte list"

record 'f HairStyle =
  file_header :: "'f FileHeader"
  error_state :: Error
  seed :: u64
  segments :: "u16 list"
  vertices :: "'f vec3 list"
  thickness :: "'f list"
  transparency :: "'f list"
  color :: "'f vec3 list"
  tangents :: "'f vec3 list"
  indices :: "u32 list"

subsection \<open>Counts and presence queries\<close>

definition get_strand_count :: "'f HairStyle \<Rightarrow> u32" where
  "get_strand_count a =
     (if length (segments a) \<noteq> 0 then of_nat (length (segments a))
      else strand_count (file_header a))"

definition get_vertex_count :: "'f HairStyle \<Rightarrow> u32" where
  "get_vertex_count a = of_nat (length (vertices a))"

definition get_segment_count :: "'f HairStyle \<Rightarrow> u32" where
  "get_segment_count a = get_vertex_count a - get_strand_count a"

definition has_segments :: "'f HairStyle \<Rightarrow> bool" where
  "has_segments a = (length (segments a) \<noteq> 0)"

definition has_vertices :: "'f HairStyle \<Rightarrow> bool" where
  "has_vertices a = (length (vertices a) \<noteq> 0)"

definition has_thickness :: "'f HairStyle \<Rightarrow> bool" where
  "has_thickness a = (length (thickness a) \<noteq> 0)"

definition has_transparency :: "'f HairStyle \<Rightarrow> bool" where
  "has_transparency a = (length (transparency a) \<noteq> 0)"

definition has_color :: "'f HairStyle \<Rightarrow> bool" where
  "has_color a = (length (color a) \<noteq> 0)"

definition has_tangents :: "'f HairStyle \<Rightarrow> bool" where
  "has_tangents a = (length (tangents a) \<noteq> 0)"

definition has_indices :: "'f HairStyle \<Rightarrow> bool" where
  "has_indices a = (length (indices a) \<noteq> 0)"

definition has_bounding_box :: "'f HairStyle \<Rightarrow> bool" where
  "has_bounding_box a = has_bounding_box_bit (field (file_header a))"

definition get_default_segment_count :: "'f HairStyle \<Rightarrow> u32" where
  "get_default_segment_count a = default_segment_count (file_header a)"

definition get_default_thickness :: "'f HairStyle \<Rightarrow> 'f" where
  "get_default_thickness a = default_thickness (file_header a)"

definition get_default_transparency :: "'f HairStyle \<Rightarrow> 'f" where
  "get_default_transparency a = default_transparency (file_header a)"

definition get_default_color :: "'f HairStyle \<Rightarrow> 'f vec3" where
  "get_default_color a = default_color (file_header a)"

text \<open>Checked element access: \<open>operator[]\<close> of \<open>std::vector\<close> outside the
  vector is undefined behaviour, which the model reports as \<open>None\<close>.\<close>

definition elem_at :: "'a list \<Rightarrow> nat \<Rightarrow> 'a option" where
  "elem_at xs i = (if i < length xs then Some (xs ! i) else None)"

text \<open>\<open>std::vector::reserve\<close> changes the capacity of a vector and none of its
  elements. A request is at most \<open>2 ^ 32 - 1\<close> elements, far below \<open>max_size()\<close>, so
  that it can only fail for want of memory (\<open>std::bad_alloc\<close>); the model is of a
  machine that has the memory its program asks for, here and wherever a vector grows.\<close>

definition reserve :: "nat \<Rightarrow> 'a list \<Rightarrow> 'a list" where
  reserve_def [simp]: "reserve n xs = xs"

text \<open>A counted loop whose body may hit undefined behaviour.\<close>

fun for_each :: "('a \<Rightarrow> 's \<Rightarrow> 's option) \<Rightarrow> 'a list \<Rightarrow> 's \<Rightarrow> 's option" where
  "for_each body [] s = Some s"
| "for_each body (i # is) s =
     (case body i s of None \<Rightarrow> None | Some s' \<Rightarrow> for_each body is s')"

subsection \<open>The pseudo-random generator\<close>

text \<open>\<open>xorshift64\<close> returns the new state and stores it back through the pointer:
  the model returns the pair (returned value, stored state).\<close>

definition xorshift64 :: "u64 \<Rightarrow> u64 \<times> u64" where
  "xorshift64 s =
     (let x = s;
          x = x XOR push_bit 13 x;
          x = x XOR drop_bit 7 x;
          x = x XOR push_bit 17 x
      in (x, x))"

section \<open>Vector arithmetic on real coordinates\<close>

definition vec_add :: "real vec3 \<Rightarrow> real vec3 \<Rightarrow> real vec3" where
  "vec_add a b = Vec3 (vx a + vx b) (vy a + vy b) (vz a + vz b)"

definition vec_sub :: "real vec3 \<Rightarrow> real vec3 \<Rightarrow> real vec3" where
  "vec_sub a b = Vec3 (vx a - vx b) (vy a - vy b) (vz a - vz b)"

definition vec_scale :: "real vec3 \<Rightarrow> real \<Rightarrow> real vec3" where
  "vec_scale a k = Vec3 (vx a * k) (vy a * k) (vz a * k)"

definition vec_dot :: "real vec3 \<Rightarrow> real vec3 \<Rightarrow> real" where
  "vec_dot a b = vx a * vx b + vy a * vy b + vz a * vz b"

definition vec_length :: "real vec3 \<Rightarrow> real" where
  "vec_length a = sqrt (vec_dot a a)"

text \<open>\<open>glm::normalize\<close> multiplies by the inverse square root of the squared
  length. For the zero vector the float code yields NaN components; the real-number
  instance has no NaN, so that this case is the HOL value of a division by zero (zero).\<close>

definition normalize_vec :: "real vec3 \<Rightarrow> real vec3" where
  "normalize_vec a = vec_scale a (1 / sqrt (vec_dot a a))"

section \<open>Derived attributes\<close>

subsection \<open>Bounding box\<close>

text \<open>The struct \<open>AABB\<close> \<open>{origin, radius, size, volume}\<close>; the fields carry
  a prefix because \<open>size\<close> is a constant of HOL.\<close>

record AABB =
  aabb_origin :: "real vec3"
  aabb_radius :: real
  aabb_size :: "real vec3"
  aabb_volume :: real

text \<open>One round of the loop body of \<open>generate_bounding_box\<close>: the pair is
  \<open>(min_aabb, max_aabb)\<close>.\<close>

definition grow_aabb :: "real vec3 \<Rightarrow> real vec3 \<times> real vec3 \<Rightarrow> real vec3 \<times> real vec3" where
  "grow_aabb position mm =
     (case mm of (min_aabb, max_aabb) \<Rightarrow>
        (Vec3 (min (vx position) (vx min_aabb))
              (min (vy position) (vy min_aabb))
              (min (vz position) (vz min_aabb)),
         Vec3 (max (vx position) (vx max_aabb))
              (max (vy position) (vy max_aabb))
              (max (vz position) (vz max_aabb))))"

definition generate_bounding_box :: "real HairStyle \<Rightarrow> real HairStyle" where
  "generate_bounding_box a =
     (case fold grow_aabb (vertices a) (Vec3 0 0 0, Vec3 0 0 0) of
        (min_aabb, max_aabb) \<Rightarrow>
          a\<lparr>file_header := (file_header a)
               \<lparr>bounding_box_min := min_aabb,
                bounding_box_max := max_aabb,
                field := (field (file_header a))\<lparr>has_bounding_box_bit := True\<rparr>\<rparr>\<rparr>)"

definition get_bounding_box :: "real HairStyle \<Rightarrow> AABB" where
  "get_bounding_box a =
     (let origin' = bounding_box_min (file_header a);
          size' = vec_sub (bounding_box_max (file_header a)) (bounding_box_min (file_header a))
      in \<lparr>aabb_origin = origin',
          aabb_radius = vec_length size',
          aabb_size = size',
          aabb_volume = vx size' * vy size' * vz size'\<rparr>)"

subsection \<open>Fused per-vertex buffers\<close>

text \<open>The three accessors loop \<open>i\<close> from 0 while
  \<open>i < static_cast<int>(get_vertex_count())\<close> and fill a vector that was created
  with \<open>get_vertex_count()\<close> value-initialised entries. An access outside one of the
  arrays is undefined behaviour (\<open>None\<close>).\<close>

definition fused_buffer :: "u32 \<Rightarrow> (nat \<Rightarrow> real vec4 option) \<Rightarrow> real vec4 list option" where
  "fused_buffer n entry =
     (if sint n < 0 then Some (replicate (unat n) (Vec4 (Vec3 0 0 0) 0))
      else those (map entry [0 ..< unat n]))"

definition create_position_thickness_data :: "real HairStyle \<Rightarrow> real vec4 list option" where
  "create_position_thickness_data a =
     fused_buffer (get_vertex_count a)
       (\<lambda>i. case (if has_thickness a then elem_at (thickness a) i else Some (42 / 1000)) of
               None \<Rightarrow> None
             | Some thickness' \<Rightarrow>
                 (case elem_at (vertices a) i of
                    None \<Rightarrow> None
                  | Some v \<Rightarrow> Some (Vec4 v thickness')))"

definition create_tangent_transparency_data :: "real HairStyle \<Rightarrow> real vec4 list option" where
  "create_tangent_transparency_data a =
     fused_buffer (get_vertex_count a)
       (\<lambda>i. case (if has_transparency a then elem_at (transparency a) i
                   else Some (get_default_transparency a)) of
               None \<Rightarrow> None
             | Some transparency' \<Rightarrow>
                 (case elem_at (tangents a) i of
                    None \<Rightarrow> None
                  | Some t \<Rightarrow> Some (Vec4 t transparency')))"

definition create_color_transparency_data :: "real HairStyle \<Rightarrow> real vec4 list option" where
  "create_color_transparency_data a =
     fused_buffer (get_vertex_count a)
       (\<lambda>i. case (if has_transparency a then elem_at (transparency a) i
                   else Some (get_default_transparency a)) of
               None \<Rightarrow> None
             | Some transparency' \<Rightarrow>
                 (case (if has_color a then elem_at (color a) i
                        else Some (get_default_color a)) of
                    None \<Rightarrow> None
                  | Some color' \<Rightarrow> Some (Vec4 color' transparency')))"

subsection \<open>Tangents, thickness and indices\<close>

text \<open>\<open>segment_count\<close> of a strand inside the generator loops: the header's default,
  overwritten by \<open>segments[strand]\<close> when segments are present.\<close>

definition strand_segment_count :: "'f HairStyle \<Rightarrow> nat \<Rightarrow> u32 option" where
  "strand_segment_count a strand =
     (if has_segments a then map_option ucast (elem_at (segments a) strand)
      else Some (get_default_segment_count a))"

text \<open>The inner loop of \<open>generate_tangents\<close>; the state is the running vertex index
  and the tangents pushed so far.\<close>

fun tangent_segments :: "nat \<Rightarrow> real vec3 list \<Rightarrow> nat \<times> real vec3 list \<Rightarrow> (nat \<times> real vec3 list) option" where
  "tangent_segments 0 vs (vertex, ts) = Some (vertex, ts)"
| "tangent_segments (Suc k) vs (vertex, ts) =
     (case elem_at vs (vertex + 0) of
        None \<Rightarrow> None
      | Some current_vertex \<Rightarrow>
          (case elem_at vs (vertex + 1) of
             None \<Rightarrow> None
           | Some next_vertex \<Rightarrow>
               tangent_segments k vs
                 (vertex + 1, ts @ [normalize_vec (vec_sub next_vertex current_vertex)])))"

text \<open>One strand: the forward differences, then \<open>tangents.push_back(tangents.back())\<close>,
  which is undefined on an empty vector.\<close>

definition tangent_strand :: "real HairStyle \<Rightarrow> nat \<Rightarrow> nat \<times> real vec3 list \<Rightarrow> (nat \<times> real vec3 list) option" where
  "tangent_strand a strand st =
     (case strand_segment_count a strand of
        None \<Rightarrow> None
      | Some segment_count \<Rightarrow>
          (case tangent_segments (unat segment_count) (vertices a) st of
             None \<Rightarrow> None
           | Some (vertex, ts) \<Rightarrow>
               (if ts = [] then None else Some (vertex + 1, ts @ [last ts]))))"

definition generate_tangents :: "real HairStyle \<Rightarrow> real HairStyle option" where
  "generate_tangents a =
     (case for_each (tangent_strand a) [0 ..< unat (get_strand_count a)]
             (0, reserve (unat (get_vertex_count a)) []) of
        None \<Rightarrow> None
      | Some (vertex, ts) \<Rightarrow> Some (a\<lparr>tangents := ts\<rparr>))"

definition generate_thickness :: "'f::zero \<Rightarrow> 'f HairStyle \<Rightarrow> 'f HairStyle option" where
  "generate_thickness radius a =
     (case for_each
        (\<lambda>strand th. case strand_segment_count a strand of
                         None \<Rightarrow> None
                       | Some segment_count \<Rightarrow>
                           Some (th @ replicate (unat segment_count) radius @ [0]))
        [0 ..< unat (get_strand_count a)] (reserve (unat (get_vertex_count a)) []) of
        None \<Rightarrow> None
      | Some th \<Rightarrow> Some (a\<lparr>thickness := th\<rparr>))"

text \<open>One strand of \<open>generate_indices\<close>: a pair \<open>(vertex, vertex + 1)\<close> per
  segment, both cast to \<open>unsigned\<close>, then the gap to the next strand.\<close>

definition index_strand :: "'f HairStyle \<Rightarrow> nat \<Rightarrow> nat \<times> u32 list \<Rightarrow> (nat \<times> u32 list) option" where
  "index_strand a strand st =
     (case strand_segment_count a strand of
        None \<Rightarrow> None
      | Some segment_count \<Rightarrow>
          (case st of (vertex, ixs) \<Rightarrow>
             Some (vertex + unat segment_count + 1,
                   ixs @ concat (map (\<lambda>segment. [of_nat (vertex + segment), of_nat (vertex + segment + 1)])
                                     [0 ..< unat segment_count]))))"

text \<open>\<open>generate_indices\<close> clears the indices and reserves
  \<open>get_segment_count() * 2\<close> entries, a product of \<open>unsigned\<close> values: with more
  strands than vertices the request wraps around, to \<open>2 ^ 32 - 4\<close> entries for two
  strands and no vertex.\<close>

definition generate_indices :: "'f HairStyle \<Rightarrow> 'f HairStyle option" where
  "generate_indices a =
     (case for_each (index_strand a) [0 ..< unat (get_strand_count a)]
             (0, reserve (unat (get_segment_count a * 2)) []) of
        None \<Rightarrow> None
      | Some (vertex, ixs) \<Rightarrow> Some (a\<lparr>indices := ixs\<rparr>))"

section \<open>Strand reduction (\<open>HairStyle::reduce\<close>)\<close>

subsection \<open>The random strand draw\<close>

text \<open>
  The draw is \<open>random = xorshift64(&seed) / double(UINT64_MAX)\<close> followed by
  \<open>random_strand = random * strand_offset.size()\<close>, truncated to \<open>size_t\<close>.
  Both conversions to \<open>double\<close> and the product round to 53 significant bits, to
  nearest with ties to even; \<open>double(UINT64_MAX)\<close> is \<open>2 ^ 64\<close>, and dividing by a
  power of two is exact, so it commutes with the rounding of the product. All quantities
  are non-negative integers scaled by \<open>2 ^ 64\<close>, which the model computes on naturals.
\<close>

definition round_to_bits :: "nat \<Rightarrow> nat \<Rightarrow> nat" where
  "round_to_bits p x =
     (if floorlog 2 x \<le> p then x
      else let e = floorlog 2 x - p;
               q = x div 2 ^ e;
               r = x mod 2 ^ e;
               half = 2 ^ (e - 1)
           in (if half < r \<or> (r = half \<and> odd q) then q + 1 else q) * 2 ^ e)"

definition to_double :: "nat \<Rightarrow> nat" where
  "to_double x = round_to_bits 53 x"

definition random_strand_index :: "u64 \<Rightarrow> nat \<Rightarrow> nat" where
  "random_strand_index x n =
     to_double (to_double (unat x) * to_double n) div to_double (2 ^ 64 - 1)"

subsection \<open>The sampling loop\<close>

record 'f reduce_state =
  hair :: "'f HairStyle"
  strands_left :: u32
  strand_offset :: "nat list"
  reduced_segments :: "u16 list"
  reduced_vertices :: "'f vec3 list"
  reduced_thickness :: "'f list"
  reduced_tangents :: "'f vec3 list"
  reduced_transparency :: "'f list"
  reduced_color :: "'f vec3 list"

definition swap_with_back :: "'a list \<Rightarrow> nat \<Rightarrow> 'a list" where
  "swap_with_back xs i = xs[i := last xs, length xs - 1 := xs ! i]"

definition pop_back :: "'a list \<Rightarrow> 'a list" where
  "pop_back xs = butlast xs"

text \<open>\<open>std::copy(v.begin() + first, v.begin() + last, std::back_inserter(out))\<close>, guarded
  by the presence test of the array; a range that leaves the array is undefined.\<close>

definition copy_range :: "bool \<Rightarrow> 'a list \<Rightarrow> nat \<Rightarrow> nat \<Rightarrow> 'a list \<Rightarrow> 'a list option" where
  "copy_range present xs first last' out =
     (if \<not> present then Some out
      else if last' \<le> length xs then Some (out @ take (last' - first) (drop first xs))
      else None)"

text \<open>The offset table built before the loop. With segments, \<open>int pre_vertex_count\<close>
  accumulates every strand's vertex count (signed overflow is undefined); without, the
  table is the partial sum of \<open>get_default_segment_count() + 1\<close> (an \<open>unsigned\<close>
  sum), and writing \<open>strand_offset[0]\<close> of an empty table is undefined.\<close>

fun prefix_offsets :: "nat \<Rightarrow> nat list \<Rightarrow> nat list" where
  "prefix_offsets pre_vertex_count [] = []"
| "prefix_offsets pre_vertex_count (k # ks) =
     pre_vertex_count # prefix_offsets (pre_vertex_count + k + 1) ks"

definition strand_offsets :: "'f HairStyle \<Rightarrow> nat list option" where
  "strand_offsets a =
     (if has_segments a then
        (if sum_list (map (\<lambda>s. unat s + 1) (segments a)) < 2 ^ 31
         then Some (prefix_offsets 0 (map unat (segments a)))
         else None)
      else if unat (get_strand_count a) = 0 then None
      else Some (map (\<lambda>i. i * unat (get_default_segment_count a + 1))
                   [0 ..< unat (get_strand_count a)]))"

text \<open>The body of the \<open>while\<close> loop after the draw: strand slot \<open>random_strand\<close>
  of the working set is copied to the output arrays and removed from the set.\<close>

definition copy_strand :: "nat \<Rightarrow> 'f reduce_state \<Rightarrow> 'f reduce_state option" where
  "copy_strand random_strand st =
     (let a = hair st
      in case (if has_segments a then
                 (case elem_at (segments a) random_strand of
                    None \<Rightarrow> None
                  | Some s \<Rightarrow>
                      Some (ucast s :: u32,
                            a\<lparr>segments := pop_back (swap_with_back (segments a) random_strand)\<rparr>))
               else Some (get_default_segment_count a, a)) of
           None \<Rightarrow> None
         | Some (segment_count, a') \<Rightarrow>
             (case elem_at (strand_offset st) random_strand of
                None \<Rightarrow> None
              | Some attribute_start \<Rightarrow>
                  let attribute_end = attribute_start + unat segment_count + 1 in
                  (case copy_range (has_vertices a') (vertices a') attribute_start attribute_end
                          (reduced_vertices st) of
                     None \<Rightarrow> None
                   | Some rv \<Rightarrow>
                  (case copy_range (has_thickness a') (thickness a') attribute_start attribute_end
                          (reduced_thickness st) of
                     None \<Rightarrow> None
                   | Some rth \<Rightarrow>
                  (case copy_range (has_tangents a') (tangents a') attribute_start attribute_end
                          (reduced_tangents st) of
                     None \<Rightarrow> None
                   | Some rta \<Rightarrow>
                  (case copy_range (has_transparency a') (transparency a') attribute_start
                          attribute_end (reduced_transparency st) of
                     None \<Rightarrow> None
                   | Some rtr \<Rightarrow>
                  (case copy_range (has_color a') (color a') attribute_start attribute_end
                          (reduced_color st) of
                     None \<Rightarrow> None
                   | Some rc \<Rightarrow>
                       Some (st\<lparr>hair := a',
                                strand_offset :=
                                  pop_back (swap_with_back (strand_offset st) random_strand),
                                reduced_segments := reduced_segments st @ [ucast segment_count],
                                reduced_vertices := rv,
                                reduced_thickness := rth,
                                reduced_tangents := rta,
                                reduced_transparency := rtr,
                                reduced_color := rc\<rparr>))))))))"

text \<open>The whole body: draw a slot with the generator (which advances the asset's seed),
  then copy that strand.\<close>

definition reduce_body :: "'f reduce_state \<Rightarrow> 'f reduce_state option" where
  "reduce_body st =
     (case xorshift64 (seed (hair st)) of (x, seed') \<Rightarrow>
        copy_strand (random_strand_index x (length (strand_offset st)))
          (st\<lparr>hair := (hair st)\<lparr>seed := seed'\<rparr>\<rparr>))"

text \<open>\<open>while (--strands_left && strand_offset.size() != 0)\<close>: the counter is decremented
  (wrapping from 0 to \<open>2 ^ 32 - 1\<close>) before it is tested. Every round of the body
  shortens \<open>strand_offset\<close>, which is the termination argument.\<close>

function reduce_loop :: "'f reduce_state \<Rightarrow> 'f reduce_state option" where
  "reduce_loop st =
     (if strands_left st - 1 \<noteq> 0 \<and> strand_offset st \<noteq> [] then
        (case reduce_body (st\<lparr>strands_left := strands_left st - 1\<rparr>) of
           None \<Rightarrow> None
         | Some st' \<Rightarrow> reduce_loop st')
      else Some (st\<lparr>strands_left := strands_left st - 1\<rparr>))"
  by pat_completeness auto
termination
proof (relation "measure (\<lambda>st. length (strand_offset st))")
  show "wf (measure (\<lambda>st. length (strand_offset st)))" by simp
next
  fix st :: "'f reduce_state" and st'
  assume "strands_left st - 1 \<noteq> 0 \<and> strand_offset st \<noteq> []"
    and "reduce_body (st\<lparr>strands_left := strands_left st - 1\<rparr>) = Some st'"
  then show "(st', st) \<in> measure (\<lambda>st. length (strand_offset st))"
    by (auto simp: reduce_body_def copy_strand_def pop_back_def swap_with_back_def Let_def
        split: prod.splits option.splits if_splits)
qed

declare reduce_loop.simps [simp del]

subsection \<open>The counts to keep\<close>

text \<open>
  The counts at the top of \<open>reduce\<close> are computed in \<open>float\<close>: the count is converted
  to \<open>float\<close>, multiplied by the ratio, the product is rounded, and so is the difference
  after \<open>std::ceil\<close>. \<open>to_float\<close> rounds a real to the nearest \<open>float\<close>, ties to
  even: 24 significant bits, and multiples of \<open>float_min = 2^-149\<close> below the normal
  range (\<open>float_ulp x\<close> is the spacing of the floats around \<open>x\<close>). The rounding mode
  is the default one, without flush-to-zero, and the ratio is a \<open>float\<close>, given as the
  real it denotes. There is no infinity in the model: a product of magnitude \<open>2^128\<close> or
  more is infinite in the source, which makes the conversion of the difference undefined;
  in the model the difference is then out of the range of \<open>unsigned\<close> too.
\<close>

definition round_half_even :: "real \<Rightarrow> int" where
  "round_half_even x =
     (let q = \<lfloor>x\<rfloor>; r = x - of_int q
      in if 1 / 2 < r \<or> (r = 1 / 2 \<and> odd q) then q + 1 else q)"

definition float_min :: real where
  "float_min = 1 / 2 ^ 149"

definition float_ulp :: "real \<Rightarrow> real" where
  "float_ulp x = 2 ^ (floorlog 2 (nat \<lfloor>\<bar>x\<bar> / float_min\<rfloor>) - 24) * float_min"

definition to_float :: "real \<Rightarrow> real" where
  "to_float x = of_int (round_half_even (x / float_ulp x)) * float_ulp x"

text \<open>\<open>unsigned n' = count - std::ceil(count * ratio)\<close>: both operands of the product
  and of the difference are \<open>float\<close>s, \<open>std::ceil\<close> of a \<open>float\<close> is exact, and the
  conversion of the result to \<open>unsigned\<close> truncates; it is undefined when the truncated
  value is negative or \<open>2^32\<close> or more.\<close>

definition shrunk_count :: "u32 \<Rightarrow> real \<Rightarrow> u32 option" where
  "shrunk_count n ratio =
     (let count = to_float (real (unat n));
          v = to_float (count - of_int \<lceil>to_float (count * ratio)\<rceil>)
      in if - 1 < v \<and> v < 2 ^ 32 then Some (of_nat (nat \<lfloor>v\<rfloor>)) else None)"

text \<open>\<open>reduce\<close>: the two counts, the reservations for the arrays that are present, the
  offset table, the sampling loop, and the assignments around \<open>generate_indices\<close>.\<close>

definition reduce :: "real \<Rightarrow> 'f HairStyle \<Rightarrow> 'f HairStyle option" where
  "reduce ratio a =
     (case shrunk_count (get_strand_count a) ratio of
        None \<Rightarrow> None
      | Some strands_left' \<Rightarrow>
     (case shrunk_count (get_vertex_count a) ratio of
        None \<Rightarrow> None
      | Some vertex_count' \<Rightarrow>
     (case strand_offsets a of
        None \<Rightarrow> None
      | Some offsets \<Rightarrow>
     (case reduce_loop
             \<lparr>hair = a, strands_left = strands_left', strand_offset = offsets,
              reduced_segments =
                (if has_segments a then reserve (unat strands_left') [] else []),
              reduced_vertices =
                (if has_vertices a then reserve (unat vertex_count') [] else []),
              reduced_thickness =
                (if has_thickness a then reserve (unat vertex_count') [] else []),
              reduced_tangents =
                (if has_tangents a then reserve (unat vertex_count') [] else []),
              reduced_transparency =
                (if has_transparency a then reserve (unat vertex_count') [] else []),
              reduced_color =
                (if has_color a then reserve (unat vertex_count') [] else [])\<rparr> of
        None \<Rightarrow> None
      | Some st \<Rightarrow>
     (case generate_indices
             ((hair st)\<lparr>segments := reduced_segments st, vertices := reduced_vertices st\<rparr>) of
        None \<Rightarrow> None
      | Some a' \<Rightarrow>
          Some (a'\<lparr>thickness := reduced_thickness st,
                   tangents := reduced_tangents st,
                   transparency := reduced_transparency st,
                   color := reduced_color st\<rparr>))))))"

definition shuffle :: "'f HairStyle \<Rightarrow> 'f HairStyle option" where
  "shuffle a = reduce 1 a"

section \<open>Binary codec (\<open>HairStyle::load\<close> and \<open>HairStyle::save\<close>)\<close>

text \<open>
  The codec sees a \<open>float\<close> as its four bytes, so the asset is instantiated with
  \<open>float_bits\<close>. A file is its header block and the bytes that follow. The header is
  read and written as one block of \<open>sizeof(FileHeader)\<close> bytes straight from the
  struct, so the model keeps it as a value (\<open>None\<close> when the file is too short to hold
  one); the sections are little-endian byte dumps of their elements.
\<close>

type_synonym float_bits = u32

record hair_file =
  file_head :: "float_bits FileHeader option"
  file_body :: "byte list"

fun le_bytes :: "nat \<Rightarrow> nat \<Rightarrow> byte list" where
  "le_bytes 0 k = []"
| "le_bytes (Suc n) k = of_nat (k mod 256) # le_bytes n (k div 256)"

fun le_value :: "byte list \<Rightarrow> nat" where
  "le_value [] = 0"
| "le_value (b # bs) = unat b + 256 * le_value bs"

definition u16_bytes :: "u16 \<Rightarrow> byte list" where
  "u16_bytes x = le_bytes 2 (unat x)"

definition u16_of_bytes :: "byte list \<Rightarrow> u16" where
  "u16_of_bytes bs = of_nat (le_value bs)"

definition u32_bytes :: "u32 \<Rightarrow> byte list" where
  "u32_bytes x = le_bytes 4 (unat x)"

definition u32_of_bytes :: "byte list \<Rightarrow> u32" where
  "u32_of_bytes bs = of_nat (le_value bs)"

definition vec3_bytes :: "float_bits vec3 \<Rightarrow> byte list" where
  "vec3_bytes v = u32_bytes (vx v) @ u32_bytes (vy v) @ u32_bytes (vz v)"

definition vec3_of_bytes :: "byte list \<Rightarrow> float_bits vec3" where
  "vec3_of_bytes bs =
     Vec3 (u32_of_bytes (take 4 bs)) (u32_of_bytes (take 4 (drop 4 bs)))
          (u32_of_bytes (take 4 (drop 8 bs)))"

text \<open>\<open>std::vector::resize\<close> with value-initialised new elements.\<close>

definition resize :: "nat \<Rightarrow> 'a \<Rightarrow> 'a list \<Rightarrow> 'a list" where
  "resize n fill xs = take n xs @ replicate (n - length xs) fill"

text \<open>\<open>decode_elements n sz dec bs\<close> reads \<open>n\<close> elements of \<open>sz\<close> bytes each from the
  front of \<open>bs\<close>.\<close>

fun decode_elements :: "nat \<Rightarrow> nat \<Rightarrow> (byte list \<Rightarrow> 'a) \<Rightarrow> byte list \<Rightarrow> 'a list" where
  "decode_elements 0 sz dec bs = []"
| "decode_elements (Suc n) sz dec bs = dec (take sz bs) # decode_elements n sz dec (drop sz bs)"

text \<open>
  \<open>read_field\<close> fills the (already resized) vector with \<open>size * sizeof(T)\<close> bytes of
  the stream. It reports failure when the stream ends early; the bytes that were
  available have then overwritten the front of the vector. The result is the success flag,
  the vector and the rest of the stream. \<open>write_field\<close> appends the vector's bytes to
  the stream, unless the device refuses the write.
\<close>

definition read_field :: "nat \<Rightarrow> (byte list \<Rightarrow> 'a) \<Rightarrow> ('a \<Rightarrow> byte list) \<Rightarrow> byte list \<Rightarrow> 'a list
    \<Rightarrow> bool \<times> 'a list \<times> byte list" where
  "read_field sz dec enc stream fld =
     (let field_size = length fld * sz
      in if field_size \<le> length stream
         then (True, decode_elements (length fld) sz dec stream, drop field_size stream)
         else (False,
               decode_elements (length fld) sz dec
                 (stream @ drop (length stream) (concat (map enc fld))),
               []))"

definition write_field :: "bool \<Rightarrow> ('a \<Rightarrow> byte list) \<Rightarrow> 'a list \<Rightarrow> byte list \<Rightarrow> byte list option" where
  "write_field refused enc fld stream =
     (if refused then None else Some (stream @ concat (map enc fld)))"

definition set_error_state :: "Error \<Rightarrow> 'f HairStyle \<Rightarrow> 'f HairStyle" where
  "set_error_state e a = a\<lparr>error_state := e\<rparr>"

text \<open>\<open>operator bool\<close>: the value \<open>load\<close> and \<open>save\<close> return.\<close>

definition succeeded :: "'f HairStyle \<Rightarrow> bool" where
  "succeeded a = (error_state a = NoneError)"

definition valid_signature :: "'f HairStyle \<Rightarrow> bool" where
  "valid_signature a =
     (case signature (file_header a) of (s0, s1, s2, s3) \<Rightarrow>
        s0 = CHR ''H'' \<and> s1 = CHR ''A'' \<and> s2 = CHR ''I'' \<and> s3 = CHR ''R'')"

definition format_is_valid :: "'f HairStyle \<Rightarrow> bool" where
  "format_is_valid a =
     (if \<not> has_vertices a then False
      else if \<not> valid_signature a then False
      else if has_thickness a \<and> length (thickness a) \<noteq> length (vertices a) then False
      else if has_transparency a \<and> length (transparency a) \<noteq> length (vertices a) then False
      else if has_color a \<and> length (color a) \<noteq> length (vertices a) then False
      else True)"

definition update_bitfield :: "'f HairStyle \<Rightarrow> 'f HairStyle" where
  "update_bitfield a =
     a\<lparr>file_header := (file_header a)
          \<lparr>field := (field (file_header a))
             \<lparr>has_segments_bit := has_segments a,
              has_vertices_bit := has_vertices a,
              has_thickness_bit := has_thickness a,
              has_transparency_bit := has_transparency a,
              has_color_bit := has_color a,
              has_tangents_bit := has_tangents a,
              has_indices_bit := has_indices a,
              future_extension := 0\<rparr>\<rparr>\<rparr>"

definition complete_header :: "'f HairStyle \<Rightarrow> 'f HairStyle" where
  "complete_header a =
     (let a = a\<lparr>file_header := (file_header a)
                  \<lparr>signature := (CHR ''H'', CHR ''A'', CHR ''I'', CHR ''R'')\<rparr>\<rparr>;
          a = update_bitfield a
      in a\<lparr>file_header := (file_header a)
             \<lparr>strand_count := get_strand_count a,
              vertex_count := get_vertex_count a\<rparr>\<rparr>)"

subsection \<open>Reading the sections\<close>

definition read_segments :: "byte list \<Rightarrow> float_bits HairStyle \<Rightarrow> bool \<times> float_bits HairStyle \<times> byte list" where
  "read_segments stream a =
     (if has_segments_bit (field (file_header a)) then
        (case read_field 2 u16_of_bytes u16_bytes stream
                (resize (unat (strand_count (file_header a))) 0 (segments a)) of
           (ok, fld, rest) \<Rightarrow> (ok, a\<lparr>segments := fld\<rparr>, rest))
      else (True, a, stream))"

definition read_vertices :: "byte list \<Rightarrow> float_bits HairStyle \<Rightarrow> bool \<times> float_bits HairStyle \<times> byte list" where
  "read_vertices stream a =
     (if has_vertices_bit (field (file_header a)) then
        (case read_field 12 vec3_of_bytes vec3_bytes stream
                (resize (unat (vertex_count (file_header a))) (Vec3 0 0 0) (vertices a)) of
           (ok, fld, rest) \<Rightarrow> (ok, a\<lparr>vertices := fld\<rparr>, rest))
      else (True, a, stream))"

definition read_thickness :: "byte list \<Rightarrow> float_bits HairStyle \<Rightarrow> bool \<times> float_bits HairStyle \<times> byte list" where
  "read_thickness stream a =
     (if has_thickness_bit (field (file_header a)) then
        (case read_field 4 u32_of_bytes u32_bytes stream
                (resize (unat (vertex_count (file_header a))) 0 (thickness a)) of
           (ok, fld, rest) \<Rightarrow> (ok, a\<lparr>thickness := fld\<rparr>, rest))
      else (True, a, stream))"

definition read_transparancy :: "byte list \<Rightarrow> float_bits HairStyle \<Rightarrow> bool \<times> float_bits HairStyle \<times> byte list" where
  "read_transparancy stream a =
     (if has_transparency_bit (field (file_header a)) then
        (case read_field 4 u32_of_bytes u32_bytes stream
                (resize (unat (vertex_count (file_header a))) 0 (transparency a)) of
           (ok, fld, rest) \<Rightarrow> (ok, a\<lparr>transparency := fld\<rparr>, rest))
      else (True, a, stream))"

definition read_color :: "byte list \<Rightarrow> float_bits HairStyle \<Rightarrow> bool \<times> float_bits HairStyle \<times> byte list" where
  "read_color stream a =
     (if has_color_bit (field (file_header a)) then
        (case read_field 12 vec3_of_bytes vec3_bytes stream
                (resize (unat (vertex_count (file_header a))) (Vec3 0 0 0) (color a)) of
           (ok, fld, rest) \<Rightarrow> (ok, a\<lparr>color := fld\<rparr>, rest))
      else (True, a, stream))"

definition read_tangents :: "byte list \<Rightarrow> float_bits HairStyle \<Rightarrow> bool \<times> float_bits HairStyle \<times> byte list" where
  "read_tangents stream a =
     (if has_tangents_bit (field (file_header a)) then
        (case read_field 12 vec3_of_bytes vec3_bytes stream
                (resize (unat (vertex_count (file_header a))) (Vec3 0 0 0) (tangents a)) of
           (ok, fld, rest) \<Rightarrow> (ok, a\<lparr>tangents := fld\<rparr>, rest))
      else (True, a, stream))"

definition read_indices :: "byte list \<Rightarrow> float_bits HairStyle \<Rightarrow> bool \<times> float_bits HairStyle \<times> byte list" where
  "read_indices stream a =
     (if has_indices_bit (field (file_header a)) then
        (case read_field 4 u32_of_bytes u32_bytes stream
                (resize (unat (get_segment_count a * 2)) 0 (indices a)) of
           (ok, fld, rest) \<Rightarrow> (ok, a\<lparr>indices := fld\<rparr>, rest))
      else (True, a, stream))"

text \<open>\<open>load\<close>: \<open>None\<close> is a file that cannot be opened. The result is the object
  after the call; the returned flag is \<open>succeeded\<close> of it.\<close>

definition load :: "hair_file option \<Rightarrow> float_bits HairStyle \<Rightarrow> float_bits HairStyle" where
  "load file a =
     (case file of
        None \<Rightarrow> set_error_state OpeningFile a
      | Some f \<Rightarrow>
     (case file_head f of
        None \<Rightarrow> set_error_state ReadingFileHeader a
      | Some h \<Rightarrow>
          let a = a\<lparr>file_header := h\<rparr> in
          if \<not> valid_signature a then set_error_state InvalidSignature a else
          let (ok, a, stream) = read_segments (file_body f) a in
          if \<not> ok then set_error_state ReadingSegments a else
          let (ok, a, stream) = read_vertices stream a in
          if \<not> ok then set_error_state ReadingVertices a else
          let (ok, a, stream) = read_thickness stream a in
          if \<not> ok then set_error_state ReadingThickness a else
          let (ok, a, stream) = read_transparancy stream a in
          if \<not> ok then set_error_state ReadingTransparency a else
          let (ok, a, stream) = read_color stream a in
          if \<not> ok then set_error_state ReadingColor a else
          let (ok, a, stream) = read_tangents stream a in
          if \<not> ok then set_error_state ReadingTangents a else
          let (ok, a, stream) = read_indices stream a in
          if \<not> ok then set_error_state ReadingIndices a else
          if \<not> format_is_valid a then set_error_state InvalidFormat a
          else set_error_state NoneError a))"

text \<open>The constructor \<open>HairStyle(file_path)\<close>: a new object (empty arrays, a header
  that holds whatever the memory held, a seed from \<open>std::random_device\<close>) that loads the
  file.\<close>

definition new_style :: "float_bits FileHeader \<Rightarrow> u32 \<Rightarrow> float_bits HairStyle" where
  "new_style h0 r =
     \<lparr>file_header = h0, error_state = NoneError, seed = ucast r,
      segments = [], vertices = [], thickness = [], transparency = [], color = [],
      tangents = [], indices = []\<rparr>"

definition construct :: "hair_file option \<Rightarrow> float_bits FileHeader \<Rightarrow> u32 \<Rightarrow> float_bits HairStyle" where
  "construct file h0 r = load file (new_style h0 r)"

subsection \<open>Writing the sections\<close>

text \<open>Whether a write goes through depends on the device: \<open>refuses e\<close> says that the
  step whose failure is reported as \<open>e\<close> fails.\<close>

definition write_segments :: "(Error \<Rightarrow> bool) \<Rightarrow> float_bits HairStyle \<Rightarrow> byte list \<Rightarrow> byte list option" where
  "write_segments refuses a stream =
     (if has_segments_bit (field (file_header a))
      then write_field (refuses WritingSegments) u16_bytes (segments a) stream
      else Some stream)"

definition write_vertices :: "(Error \<Rightarrow> bool) \<Rightarrow> float_bits HairStyle \<Rightarrow> byte list \<Rightarrow> byte list option" where
  "write_vertices refuses a stream =
     (if has_vertices_bit (field (file_header a))
      then write_field (refuses WritingVertices) vec3_bytes (vertices a) stream
      else Some stream)"

definition write_thickness :: "(Error \<Rightarrow> bool) \<Rightarrow> float_bits HairStyle \<Rightarrow> byte list \<Rightarrow> byte list option" where
  "write_thickness refuses a stream =
     (if has_thickness_bit (field (file_header a))
      then write_field (refuses WritingThickness) u32_bytes (thickness a) stream
      else Some stream)"

definition write_transparancy :: "(Error \<Rightarrow> bool) \<Rightarrow> float_bits HairStyle \<Rightarrow> byte list \<Rightarrow> byte list option" where
  "write_transparancy refuses a stream =
     (if has_transparency_bit (field (file_header a))
      then write_field (refuses WritingTransparency) u32_bytes (transparency a) stream
      else Some stream)"

definition write_color :: "(Error \<Rightarrow> bool) \<Rightarrow> float_bits HairStyle \<Rightarrow> byte list \<Rightarrow> byte list option" where
  "write_color refuses a stream =
     (if has_color_bit (field (file_header a))
      then write_field (refuses WritingColor) vec3_bytes (color a) stream
      else Some stream)"

definition write_tangents :: "(Error \<Rightarrow> bool) \<Rightarrow> float_bits HairStyle \<Rightarrow> byte list \<Rightarrow> byte list option" where
  "write_tangents refuses a stream =
     (if has_tangents_bit (field (file_header a))
      then write_field (refuses WritingTangents) vec3_bytes (tangents a) stream
      else Some stream)"

definition write_indices :: "(Error \<Rightarrow> bool) \<Rightarrow> float_bits HairStyle \<Rightarrow> byte list \<Rightarrow> byte list option" where
  "write_indices refuses a stream =
     (if has_indices_bit (field (file_header a))
      then write_field (refuses WritingIndices) u32_bytes (indices a) stream
      else Some stream)"

text \<open>\<open>save\<close> returns the object (its header completed, its error state set) and the
  file it wrote; after a failed step the file's contents are not specified (\<open>None\<close>).\<close>

definition save :: "(Error \<Rightarrow> bool) \<Rightarrow> float_bits HairStyle \<Rightarrow> float_bits HairStyle \<times> hair_file option" where
  "save refuses a0 =
     (let a = complete_header a0 in
      if \<not> format_is_valid a then (set_error_state InvalidFormat a, None) else
      if refuses OpeningFile then (set_error_state OpeningFile a, None) else
      if refuses WritingFileHeader then (set_error_state WritingFileHeader a, None) else
      (case write_segments refuses a [] of
         None \<Rightarrow> (set_error_state WritingSegments a, None)
       | Some stream \<Rightarrow>
      (case write_vertices refuses a stream of
         None \<Rightarrow> (set_error_state WritingVertices a, None)
       | Some stream \<Rightarrow>
      (case write_thickness refuses a stream of
         None \<Rightarrow> (set_error_state WritingThickness a, None)
       | Some stream \<Rightarrow>
      (case write_transparancy refuses a stream of
         None \<Rightarrow> (set_error_state WritingTransparency a, None)
       | Some stream \<Rightarrow>
      (case write_color refuses a stream of
         None \<Rightarrow> (set_error_state WritingColor a, None)
       | Some stream \<Rightarrow>
      (case write_tangents refuses a stream of
         None \<Rightarrow> (set_error_state WritingTangents a, None)
       | Some stream \<Rightarrow>
      (case write_indices refuses a stream of
         None \<Rightarrow> (set_error_state WritingIndices a, None)
       | Some stream \<Rightarrow>
           (set_error_state NoneError a,
            Some \<lparr>file_head = Some (file_header a), file_body = stream\<rparr>)))))))))"

section \<open>Ray-traced shading (ray\_tracer.cc)\<close>

text \<open>
  The intersection library is used through two queries on a committed scene. The model
  takes the scene as the pair of answers it gives: \<open>nearest_hit\<close> (distance and hit
  record of the nearest intersection of a ray, if any) and \<open>any_hit\<close> (whether anything
  lies on the ray). \<open>rtcIntersect1\<close> stores a found hit in the ray/hit structure and
  sets \<open>tfar\<close> to its distance; \<open>rtcOccluded1\<close> sets \<open>tfar\<close> to minus infinity
  when the ray is occluded and leaves the ray untouched otherwise. Colours and
  directions are real vectors; \<open>tfar\<close> can also be infinite.
\<close>

datatype distance = Finite real | PlusInfinity | MinusInfinity

record RTCRay =
  org :: "real vec3"
  dir :: "real vec3"
  tnear :: real
  tfar :: distance

record RTCHit =
  Ng :: "real vec3"
  hit_u :: real
  hit_v :: real
  primID :: u32
  geomID :: u32

record RTCRayHit =
  ray_part :: RTCRay
  hit_part :: RTCHit

record RTCScene =
  nearest_hit :: "RTCRay \<Rightarrow> (real \<times> RTCHit) option"
  any_hit :: "RTCRay \<Rightarrow> bool"

definition RTC_INVALID_GEOMETRY_ID :: u32 where
  "RTC_INVALID_GEOMETRY_ID = - 1"

definition rtcIntersect1 :: "RTCScene \<Rightarrow> RTCRayHit \<Rightarrow> RTCRayHit" where
  "rtcIntersect1 scene rh =
     (case nearest_hit scene (ray_part rh) of
        None \<Rightarrow> rh
      | Some (t, h) \<Rightarrow> \<lparr>ray_part = (ray_part rh)\<lparr>tfar := Finite t\<rparr>, hit_part = h\<rparr>)"

definition rtcOccluded1 :: "RTCScene \<Rightarrow> RTCRay \<Rightarrow> RTCRay" where
  "rtcOccluded1 scene r = (if any_hit scene r then r\<lparr>tfar := MinusInfinity\<rparr> else r)"

text \<open>The class \<open>Ray\<close> wraps one ray/hit structure.\<close>

definition Ray :: "real vec3 \<Rightarrow> real vec3 \<Rightarrow> real \<Rightarrow> RTCRayHit" where
  "Ray origin direction tnear_plane =
     \<lparr>ray_part = \<lparr>org = origin, dir = direction, tnear = tnear_plane, tfar = PlusInfinity\<rparr>,
      hit_part = \<lparr>Ng = Vec3 0 0 0, hit_u = 0, hit_v = 0, primID = 0,
                  geomID = RTC_INVALID_GEOMETRY_ID\<rparr>\<rparr>"

definition get_origin :: "RTCRayHit \<Rightarrow> real vec3" where
  "get_origin rh = org (ray_part rh)"

definition get_direction :: "RTCRayHit \<Rightarrow> real vec3" where
  "get_direction rh = dir (ray_part rh)"

definition hit_surface :: "RTCRayHit \<Rightarrow> bool" where
  "hit_surface rh = (geomID (hit_part rh) \<noteq> RTC_INVALID_GEOMETRY_ID)"

definition is_occluded :: "RTCRayHit \<Rightarrow> bool" where
  "is_occluded rh =
     (case tfar (ray_part rh) of
        Finite t \<Rightarrow> t < 0
      | PlusInfinity \<Rightarrow> False
      | MinusInfinity \<Rightarrow> True)"

definition get_normal :: "RTCRayHit \<Rightarrow> real vec3" where
  "get_normal rh = Ng (hit_part rh)"

definition get_tangent :: "RTCRayHit \<Rightarrow> real vec3" where
  "get_tangent rh = get_normal rh"

text \<open>\<open>origin + direction * tfar\<close>; with an infinite \<open>tfar\<close> the float result has
  infinite or NaN components, which the real vectors do not have (\<open>None\<close>).\<close>

definition get_intersection_point :: "RTCRayHit \<Rightarrow> real vec3 option" where
  "get_intersection_point rh =
     (case tfar (ray_part rh) of
        Finite t \<Rightarrow> Some (vec_add (get_origin rh) (vec_scale (get_direction rh) t))
      | PlusInfinity \<Rightarrow> None
      | MinusInfinity \<Rightarrow> None)"

text \<open>\<open>intersects\<close> and \<open>occluded_by\<close> return their flag and leave the updated ray
  behind.\<close>

definition intersects :: "RTCScene \<Rightarrow> RTCRayHit \<Rightarrow> bool \<times> RTCRayHit" where
  "intersects scene rh = (let rh' = rtcIntersect1 scene rh in (hit_surface rh', rh'))"

definition occluded_by :: "RTCScene \<Rightarrow> RTCRayHit \<Rightarrow> bool \<times> RTCRayHit" where
  "occluded_by scene rh =
     (let rh' = rh\<lparr>ray_part := rtcOccluded1 scene (ray_part rh)\<rparr> in (is_occluded rh', rh'))"

text \<open>The Kajiya-Kay term. The exponent \<open>p\<close> is a whole number (\<open>draw\<close> passes 80).
  Where \<open>1 - cos\<^sup>2\<close> is zero the float code divides zero by zero; HOL's division gives
  0 there.\<close>

definition kajiya_kay :: "real vec3 \<Rightarrow> real vec3 \<Rightarrow> nat \<Rightarrow> real vec3 \<Rightarrow> real vec3 \<Rightarrow> real vec3 \<Rightarrow> real vec3" where
  "kajiya_kay diffuse specular p tangent light eye =
     (let cosTL = vec_dot tangent light;
          cosTE = vec_dot tangent eye;
          cosTL_squared = cosTL * cosTL;
          cosTE_squared = cosTE * cosTE;
          one_minus_cosTL_squared = 1 - cosTL_squared;
          one_minus_cosTE_squared = 1 - cosTE_squared;
          sinTL = one_minus_cosTL_squared / sqrt one_minus_cosTL_squared;
          sinTE = one_minus_cosTE_squared / sqrt one_minus_cosTE_squared;
          diffuse_colors = vec_scale diffuse sinTL;
          specular_color = vec_scale specular ((cosTL * cosTE + sinTL * sinTE) ^ p)
      in vec_add diffuse_colors specular_color)"

text \<open>What \<open>draw\<close> needs of the camera: the viewing plane and the view matrix (four
  columns).\<close>

record ViewingPlane =
  plane_x :: "real vec3"
  plane_y :: "real vec3"
  plane_z :: "real vec3"
  plane_point :: "real vec3"

datatype mat4 = Mat4 (col0: "real vec4") (col1: "real vec4") (col2: "real vec4") (col3: "real vec4")

record Camera =
  viewing_plane :: ViewingPlane
  view_matrix :: mat4

definition vec4_add :: "real vec4 \<Rightarrow> real vec4 \<Rightarrow> real vec4" where
  "vec4_add a b = Vec4 (vec_add (xyz a) (xyz b)) (w4 a + w4 b)"

definition vec4_scale :: "real vec4 \<Rightarrow> real \<Rightarrow> real vec4" where
  "vec4_scale a k = Vec4 (vec_scale (xyz a) k) (w4 a * k)"

definition mat4_mul :: "mat4 \<Rightarrow> real vec4 \<Rightarrow> real vec4" where
  "mat4_mul m v =
     vec4_add (vec4_add (vec4_scale (col0 m) (vx (xyz v))) (vec4_scale (col1 m) (vy (xyz v))))
              (vec4_add (vec4_scale (col2 m) (vz (xyz v))) (vec4_scale (col3 m) (w4 v)))"

definition normalize_vec4 :: "real vec4 \<Rightarrow> real vec4" where
  "normalize_vec4 a = vec4_scale a (1 / sqrt (vec_dot (xyz a) (xyz a) + w4 a * w4 a))"

text \<open>\<open>std::clamp(c, 0, 1) * 255\<close> stored in an 8-bit channel.\<close>

definition channel :: "real \<Rightarrow> byte" where
  "channel c = of_int \<lfloor>max 0 (min 1 c) * 255\<rfloor>"

definition to_pixel :: "real vec4 \<Rightarrow> byte \<times> byte \<times> byte \<times> byte" where
  "to_pixel c = (channel (vx (xyz c)), channel (vy (xyz c)), channel (vz (xyz c)), channel (w4 c))"

definition hair_color :: "real vec3" where
  "hair_color = vec_scale (Vec3 (80 / 100) (57 / 100) (32 / 100)) (40 / 100)"

definition light :: "real vec3" where
  "light = normalize_vec (Vec3 1 2 1)"

definition light_color :: "real vec3" where
  "light_color = vec_scale (Vec3 1 (77 / 100) (56 / 100)) (20 / 100)"

text \<open>The colour \<open>draw\<close> computes for a pixel whose primary ray hit the hair: the
  ambient half of the albedo, and inside the branch the Kajiya-Kay term, which replaces
  the colour when shadows are off and is added at half weight otherwise.\<close>

definition shade_hit :: "Camera \<Rightarrow> bool \<Rightarrow> bool \<Rightarrow> real vec3 \<Rightarrow> real vec4" where
  "shade_hit camera occluded shadows_off tangent3 =
     (let color = Vec4 (vec_scale hair_color (1 / 2)) 1;
          tangent = mat4_mul (view_matrix camera) (Vec4 tangent3 0)
      in if occluded \<or> shadows_off then
           (let shading = kajiya_kay hair_color light_color 80
                            (xyz (normalize_vec4 tangent)) light (Vec3 0 0 0)
            in if shadows_off then Vec4 shading 1
               else vec4_add color (Vec4 (vec_scale shading (1 / 2)) 0))
         else color)"

text \<open>The body of the pixel loop of \<open>draw\<close> for pixel \<open>(i, j)\<close>: \<open>None\<close> when the
  pixel is not written (the primary ray misses, the cleared background stays).
  \<open>epsilon\<close> is the constant \<open>Ray::Epsilon\<close>.\<close>

definition draw_pixel :: "RTCScene \<Rightarrow> Camera \<Rightarrow> bool \<Rightarrow> real \<Rightarrow> nat \<Rightarrow> nat
    \<Rightarrow> (byte \<times> byte \<times> byte \<times> byte) option option" where
  "draw_pixel scene camera shadows_off epsilon i j =
     (let plane = viewing_plane camera;
          eye_direction = normalize_vec
            (vec_add (vec_add (vec_scale (plane_x plane) (real i)) (vec_scale (plane_y plane) (real j)))
                     (plane_z plane))
      in case intersects scene (Ray (plane_point plane) eye_direction 0) of
           (False, ray) \<Rightarrow> Some None
         | (True, ray) \<Rightarrow>
             (case get_intersection_point ray of
                None \<Rightarrow> None
              | Some point \<Rightarrow>
                  (case occluded_by scene (Ray point light epsilon) of
                     (occluded, shadow_ray) \<Rightarrow>
                       Some (Some (to_pixel (shade_hit camera occluded shadows_off (get_tangent ray)))))))"

section \<open>Voxelization\<close>

text \<open>
  A \<open>Volume\<close> holds the grid resolution, the bounds, a density byte per voxel and a
  quantised tangent per voxel. A quantised tangent is the result of converting three
  floats to signed bytes; where the float is NaN or out of the byte range the conversion
  has no defined result, and the voxel's entry is \<open>None\<close>.
\<close>

record Volume =
  resolution :: "real vec3"
  bounds :: AABB
  densities :: "byte list"
  voxel_tangents :: "(byte \<times> byte \<times> byte \<times> byte) option list"

definition vec_div :: "real vec3 \<Rightarrow> real vec3 \<Rightarrow> real vec3" where
  "vec_div a b = Vec3 (vx a / vx b) (vy a / vy b) (vz a / vz b)"

text \<open>\<open>glm::min(glm::floor(voxel), resolution - 1.0f)\<close>.\<close>

definition clamp_voxel :: "real vec3 \<Rightarrow> real vec3 \<Rightarrow> real vec3" where
  "clamp_voxel voxel res =
     Vec3 (min (real_of_int \<lfloor>vx voxel\<rfloor>) (vx res - 1))
          (min (real_of_int \<lfloor>vy voxel\<rfloor>) (vy res - 1))
          (min (real_of_int \<lfloor>vz voxel\<rfloor>) (vz res - 1))"

text \<open>\<open>voxel.x + voxel.y*width + voxel.z*width*height\<close>, converted to an index; a
  negative value has no defined conversion to \<open>size_t\<close> and indexes outside the grid
  as an \<open>int\<close>.\<close>

definition voxel_position :: "real vec3 \<Rightarrow> nat \<Rightarrow> nat \<Rightarrow> nat option" where
  "voxel_position voxel width height =
     (let pos = vx voxel + vy voxel * real width + vz voxel * real width * real height
      in if pos < 0 then None else Some (nat \<lfloor>pos\<rfloor>))"

text \<open>The guarded accumulation into one voxel; the state is the density grid and the
  grid of summed tangents. The source tangent is read only when the voxel is not
  saturated.\<close>

definition splat :: "nat \<Rightarrow> real vec3 option \<Rightarrow> byte list \<times> real vec3 list
    \<Rightarrow> (byte list \<times> real vec3 list) option" where
  "splat pos tangent st =
     (case st of (dens, precise_tangents) \<Rightarrow>
        if pos < length dens then
          (if dens ! pos \<noteq> 255 then
             (case tangent of
                None \<Rightarrow> None
              | Some t \<Rightarrow>
                  Some (dens[pos := dens ! pos + 1],
                        precise_tangents[pos := vec_add (precise_tangents ! pos) t]))
           else Some st)
        else None)"

text \<open>The finalization pass, the same in both variants:
  \<open>quantized = precise_tangents[i] / float(densities[i]) * 127.0f\<close> converted to three
  signed bytes. The code has no branch for a density of zero: the quotient is NaN (or
  infinite), and its conversion is undefined.\<close>

definition quantize :: "real \<Rightarrow> byte option" where
  "quantize x =
     (if - 129 < x \<and> x < 128
      then Some (of_int (if 0 \<le> x then \<lfloor>x\<rfloor> else \<lceil>x\<rceil>))
      else None)"

definition quantize_voxel :: "real vec3 \<Rightarrow> byte \<Rightarrow> (byte \<times> byte \<times> byte \<times> byte) option" where
  "quantize_voxel precise_tangent density =
     (if density = 0 then None
      else (case (quantize (vx precise_tangent / real (unat density) * 127),
                  quantize (vy precise_tangent / real (unat density) * 127),
                  quantize (vz precise_tangent / real (unat density) * 127)) of
              (Some qx, Some qy, Some qz) \<Rightarrow> Some (qx, qy, qz, 0)
            | _ \<Rightarrow> None))"

definition finalize_tangents :: "byte list \<Rightarrow> real vec3 list \<Rightarrow> (byte \<times> byte \<times> byte \<times> byte) option list" where
  "finalize_tangents dens precise_tangents =
     map (\<lambda>i. quantize_voxel (precise_tangents ! i) (dens ! i)) [0 ..< length dens]"

text \<open>\<open>voxelize_vertices\<close>. A voxel size or a resolution with a zero component
  makes the scaled position infinite or NaN: the loop body then leaves the real-number
  model (\<open>None\<close>), as does every access outside an array.\<close>

definition degenerate_grid :: "real vec3 \<Rightarrow> real vec3 \<Rightarrow> bool" where
  "degenerate_grid res voxel_size \<longleftrightarrow>
     vx res = 0 \<or> vy res = 0 \<or> vz res = 0 \<or>
     vx voxel_size = 0 \<or> vy voxel_size = 0 \<or> vz voxel_size = 0"

definition voxelize_vertices :: "nat \<Rightarrow> nat \<Rightarrow> nat \<Rightarrow> real HairStyle \<Rightarrow> Volume option" where
  "voxelize_vertices width height depth a =
     (let res = Vec3 (real width) (real height) (real depth);
          box = get_bounding_box a;
          cells = width * height * depth;
          voxel_size = vec_div (aabb_size box) res
      in case for_each
                (\<lambda>i st.
                   if degenerate_grid res voxel_size then None
                   else
                     (case elem_at (vertices a) i of
                        None \<Rightarrow> None
                      | Some vertex \<Rightarrow>
                          (case voxel_position
                                  (clamp_voxel (vec_div (vec_sub vertex (aabb_origin box)) voxel_size) res)
                                  width height of
                             None \<Rightarrow> None
                           | Some pos \<Rightarrow> splat pos (elem_at (tangents a) i) st)))
                [0 ..< unat (get_vertex_count a)]
                (replicate cells 0, replicate cells (Vec3 0 0 0)) of
           None \<Rightarrow> None
         | Some (dens, precise_tangents) \<Rightarrow>
             Some \<lparr>resolution = res, bounds = box, densities = dens,
                   voxel_tangents = finalize_tangents dens precise_tangents\<rparr>)"

text \<open>The inner loop of \<open>voxelize_segments\<close>, \<open>while (steps-- > 0.0f)\<close>: it runs
  \<open>ceil(steps)\<close> times for a positive \<open>steps\<close>; the argument counts the rounds left.
  With \<open>steps = 0\<close> the direction is divided by zero, and the loop does not run.\<close>

fun walk_segment :: "nat \<Rightarrow> real vec3 \<Rightarrow> real vec3 \<Rightarrow> real vec3 \<Rightarrow> nat \<Rightarrow> nat \<Rightarrow> real vec3 option
    \<Rightarrow> byte list \<times> real vec3 list \<Rightarrow> (byte list \<times> real vec3 list) option" where
  "walk_segment 0 root' direction res width height tangent st = Some st"
| "walk_segment (Suc k) root' direction res width height tangent st =
     (case voxel_position (clamp_voxel root' res) width height of
        None \<Rightarrow> None
      | Some voxel_index \<Rightarrow>
          (case splat voxel_index tangent st of
             None \<Rightarrow> None
           | Some st' \<Rightarrow>
               walk_segment k (vec_add root' direction) direction res width height tangent st'))"

text \<open>\<open>voxelize_segments\<close>: the outer loop runs \<open>i = 0, 2, 4, ...\<close> while
  \<open>i < indices.size() - 1\<close>; with no indices the bound wraps around and the first round
  reads outside the array.\<close>

definition voxelize_segments :: "nat \<Rightarrow> nat \<Rightarrow> nat \<Rightarrow> real HairStyle \<Rightarrow> Volume option" where
  "voxelize_segments width height depth a =
     (let res = Vec3 (real width) (real height) (real depth);
          box = get_bounding_box a;
          cells = width * height * depth;
          voxel_size = vec_div (aabb_size box) res
      in if indices a = [] then None
         else
           (case for_each
                   (\<lambda>i st.
                      if degenerate_grid res voxel_size then None
                      else
                        (case (elem_at (indices a) i, elem_at (indices a) (i + 1)) of
                           (Some i0, Some i1) \<Rightarrow>
                             (case (elem_at (vertices a) (unat i0), elem_at (vertices a) (unat i1)) of
                                (Some v0, Some v1) \<Rightarrow>
                                  (let root' = vec_div (vec_sub v0 (aabb_origin box)) voxel_size;
                                       tip = vec_div (vec_sub v1 (aabb_origin box)) voxel_size;
                                       direction = vec_sub tip root';
                                       steps = max (max \<bar>vx direction\<bar> \<bar>vy direction\<bar>) \<bar>vz direction\<bar>
                                   in walk_segment (nat \<lceil>steps\<rceil>) root'
                                        (vec_div direction (Vec3 steps steps steps)) res width height
                                        (elem_at (tangents a) (unat i0)) st)
                              | _ \<Rightarrow> None)
                         | _ \<Rightarrow> None))
                   (map (\<lambda>k. 2 * k) [0 ..< length (indices a) div 2])
                   (replicate cells 0, replicate cells (Vec3 0 0 0)) of
              None \<Rightarrow> None
            | Some (dens, precise_tangents) \<Rightarrow>
                Some \<lparr>resolution = res, bounds = box, densities = dens,
                      voxel_tangents = finalize_tangents dens precise_tangents\<rparr>))"

section \<open>Reference descriptions and fixtures\<close>

text \<open>What the specification says a strand's tangents are: the normalised forward
  difference at every vertex but the last (\<open>forward_tangents\<close>), and at the last
  vertex a copy of its predecessor's tangent. \<open>split_strands\<close> cuts the strand-major
  vertex array into strands of \<open>k + 1\<close> vertices, and \<open>segment_counts\<close> lists the
  strands' segment counts (the uniform default when the segments array is absent).\<close>

fun forward_tangents :: "real vec3 list \<Rightarrow> real vec3 list" where
  "forward_tangents (p # q # ps) = normalize_vec (vec_sub q p) # forward_tangents (q # ps)"
| "forward_tangents ps = []"

definition spec_strand_tangents :: "real vec3 list \<Rightarrow> real vec3 list" where
  "spec_strand_tangents ps = forward_tangents ps @ [last (forward_tangents ps)]"

text \<open>The same over a sequence of strands, where a strand without a segment has no
  predecessor of its own: given the tangents \<open>ts\<close> before it, its single vertex repeats
  the last of them, the tip of the strand before.\<close>

fun strands_tangents :: "real vec3 list \<Rightarrow> real vec3 list list \<Rightarrow> real vec3 list" where
  "strands_tangents ts [] = ts"
| "strands_tangents ts (ps # pss) =
     strands_tangents (ts @ forward_tangents ps @ [last (ts @ forward_tangents ps)]) pss"

fun split_strands :: "nat list \<Rightarrow> 'a list \<Rightarrow> 'a list list" where
  "split_strands [] vs = []"
| "split_strands (k # ks) vs = take (k + 1) vs # split_strands ks (drop (k + 1) vs)"

definition segment_counts :: "'f HairStyle \<Rightarrow> nat list" where
  "segment_counts a =
     (if has_segments a then map unat (segments a)
      else replicate (unat (strand_count (file_header a)))
             (unat (default_segment_count (file_header a))))"

text \<open>Where the strand-major layout puts strand \<open>s\<close>: its first vertex index and
  the slice of a vertex-aligned array that belongs to it.\<close>

definition strand_start :: "'f HairStyle \<Rightarrow> nat \<Rightarrow> nat" where
  "strand_start a s = sum_list (map Suc (take s (segment_counts a)))"

definition strand_slice :: "'f HairStyle \<Rightarrow> 'a list \<Rightarrow> nat \<Rightarrow> 'a list" where
  "strand_slice a xs s = take (segment_counts a ! s + 1) (drop (strand_start a s) xs)"

text \<open>\<open>gathered a xs sel out\<close>: the output array \<open>out\<close> is the concatenation of
  the slices of \<open>xs\<close> that belong to the strands \<open>sel\<close>, in that order, each slice
  lying inside \<open>xs\<close> when the array is present. \<open>reduce_inv\<close> is the invariant of the
  sampling loop: \<open>ws\<close> lists the original strands still in the working set, slot by
  slot, and \<open>sel\<close> the strands copied so far.\<close>

definition gathered :: "'f HairStyle \<Rightarrow> 'a list \<Rightarrow> nat list \<Rightarrow> 'a list \<Rightarrow> bool" where
  "gathered a xs sel out \<longleftrightarrow>
     out = concat (map (strand_slice a xs) sel) \<and>
     (xs \<noteq> [] \<longrightarrow> (\<forall>s \<in> set sel. strand_start a s + segment_counts a ! s + 1 \<le> length xs))"

definition reduce_inv :: "'f HairStyle \<Rightarrow> 'f reduce_state \<Rightarrow> nat list \<Rightarrow> nat list \<Rightarrow> bool" where
  "reduce_inv a st ws sel \<longleftrightarrow>
     file_header (hair st) = file_header a \<and>
     vertices (hair st) = vertices a \<and>
     thickness (hair st) = thickness a \<and>
     tangents (hair st) = tangents a \<and>
     transparency (hair st) = transparency a \<and>
     color (hair st) = color a \<and>
     segments (hair st) = (if has_segments a then map (\<lambda>s. segments a ! s) ws else []) \<and>
     strand_offset st = map (strand_start a) ws \<and>
     distinct (ws @ sel) \<and>
     set (ws @ sel) \<subseteq> {..< length (segment_counts a)} \<and>
     reduced_segments st = map (\<lambda>s. of_nat (segment_counts a ! s)) sel \<and>
     gathered a (vertices a) sel (reduced_vertices st) \<and>
     gathered a (thickness a) sel (reduced_thickness st) \<and>
     gathered a (tangents a) sel (reduced_tangents st) \<and>
     gathered a (transparency a) sel (reduced_transparency st) \<and>
     gathered a (color a) sel (reduced_color st)"

text \<open>The assets on which \<open>reduce\<close> is meant to run: at least one strand, the
  vertices exactly those of the strands (fewer than \<open>2^31\<close>, the range of the \<open>int\<close>
  offsets), and every optional per-vertex array either empty or as long as the vertices.\<close>

definition well_formed :: "'f HairStyle \<Rightarrow> bool" where
  "well_formed a \<longleftrightarrow>
     segment_counts a \<noteq> [] \<and>
     sum_list (map Suc (segment_counts a)) = length (vertices a) \<and>
     length (vertices a) < 2 ^ 31 \<and>
     (thickness a \<noteq> [] \<longrightarrow> length (thickness a) = length (vertices a)) \<and>
     (tangents a \<noteq> [] \<longrightarrow> length (tangents a) = length (vertices a)) \<and>
     (transparency a \<noteq> [] \<longrightarrow> length (transparency a) = length (vertices a)) \<and>
     (color a \<noteq> [] \<longrightarrow> length (color a) = length (vertices a))"

text \<open>Fixtures: a header with default thickness 1 and an asset with the given segments
  and vertices and no optional array.\<close>

definition example_header :: "real FileHeader" where
  "example_header =
     \<lparr>signature = (CHR ''H'', CHR ''A'', CHR ''I'', CHR ''R''),
      strand_count = 0, vertex_count = 0,
      field = \<lparr>has_segments_bit = False, has_vertices_bit = False, has_thickness_bit = False,
               has_transparency_bit = False, has_color_bit = False, has_tangents_bit = False,
               has_indices_bit = False, has_bounding_box_bit = False, future_extension = 0\<rparr>,
      default_segment_count = 0, default_thickness = 1, default_transparency = 0,
      default_color = Vec3 0 0 0, bounding_box_min = Vec3 0 0 0, bounding_box_max = Vec3 0 0 0,
      information = []\<rparr>"

definition example_style :: "u16 list \<Rightarrow> real vec3 list \<Rightarrow> real HairStyle" where
  "example_style segs vs =
     \<lparr>file_header = example_header, error_state = NoneError, seed = 0,
      segments = segs, vertices = vs, thickness = [], transparency = [], color = [],
      tangents = [], indices = []\<rparr>"

text \<open>Four strands with segment counts 1, 2, 1, 1 over nine vertices, seed 0.\<close>

definition four_strands :: "real HairStyle" where
  "four_strands = example_style [1, 2, 1, 1]
     [Vec3 0 0 0, Vec3 0 0 1, Vec3 1 0 0, Vec3 1 0 1, Vec3 1 0 2, Vec3 2 0 0, Vec3 2 0 1,
      Vec3 3 0 0, Vec3 3 0 1]"

text \<open>What the code makes of the four strands: reduced with ratio 1/4, and shuffled.\<close>

definition four_strands_quarter :: "real HairStyle" where
  "four_strands_quarter = (example_style [1, 1] [Vec3 0 0 0, Vec3 0 0 1, Vec3 3 0 0, Vec3 3 0 1])
     \<lparr>indices := [0, 1, 2, 3]\<rparr>"

definition four_strands_shuffled :: "real HairStyle" where
  "four_strands_shuffled = (example_style [1, 1, 1, 2]
     [Vec3 0 0 0, Vec3 0 0 1, Vec3 3 0 0, Vec3 3 0 1, Vec3 2 0 0, Vec3 2 0 1,
      Vec3 1 0 0, Vec3 1 0 1, Vec3 1 0 2])
     \<lparr>indices := [0, 1, 2, 3, 4, 5, 6, 7, 7, 8]\<rparr>"

text \<open>The four strands with a seed from which the first draw of the generator is its
  largest value, \<open>2 ^ 64 - 1\<close>.\<close>

definition four_strands_last_draw :: "real HairStyle" where
  "four_strands_last_draw = four_strands\<lparr>seed := 7650297886450228676\<rparr>"

text \<open>Codec fixtures: a header as a new object might hold it, a strand of two vertices
  with thickness and indices, and an asset with more tangents than vertices.\<close>

definition blank_header :: "float_bits FileHeader" where
  "blank_header =
     \<lparr>signature = (CHR 0x00, CHR 0x00, CHR 0x00, CHR 0x00),
      strand_count = 0, vertex_count = 0,
      field = \<lparr>has_segments_bit = False, has_vertices_bit = False, has_thickness_bit = False,
               has_transparency_bit = False, has_color_bit = False, has_tangents_bit = False,
               has_indices_bit = False, has_bounding_box_bit = False, future_extension = 0\<rparr>,
      default_segment_count = 0, default_thickness = 0, default_transparency = 0,
      default_color = Vec3 0 0 0, bounding_box_min = Vec3 0 0 0, bounding_box_max = Vec3 0 0 0,
      information = []\<rparr>"

definition two_vertex_strand :: "float_bits HairStyle" where
  "two_vertex_strand =
     \<lparr>file_header = blank_header, error_state = NoneError, seed = 0,
      segments = [1], vertices = [Vec3 1 2 3, Vec3 4 5 6], thickness = [7, 8],
      transparency = [], color = [], tangents = [], indices = [0, 1]\<rparr>"

definition surplus_tangents :: "float_bits HairStyle" where
  "surplus_tangents =
     \<lparr>file_header = blank_header, error_state = NoneError, seed = 0,
      segments = [], vertices = [Vec3 1 2 3], thickness = [],
      transparency = [], color = [], tangents = [Vec3 4 5 6, Vec3 7 8 9], indices = []\<rparr>"

text \<open>Shading: the primary ray of a pixel, the ambient colour, the lighting term for a
  hit with geometric normal \<open>n\<close>, and a camera that looks down the z axis at a scene
  in which every ray hits at distance 1 and shadow rays are occluded or not.\<close>

definition primary_ray :: "Camera \<Rightarrow> nat \<Rightarrow> nat \<Rightarrow> RTCRayHit" where
  "primary_ray camera i j =
     Ray (plane_point (viewing_plane camera))
       (normalize_vec
          (vec_add (vec_add (vec_scale (plane_x (viewing_plane camera)) (real i))
                            (vec_scale (plane_y (viewing_plane camera)) (real j)))
                   (plane_z (viewing_plane camera)))) 0"

definition ambient :: "real vec4" where
  "ambient = Vec4 (vec_scale hair_color (1 / 2)) 1"

definition lighting :: "Camera \<Rightarrow> real vec3 \<Rightarrow> real vec3" where
  "lighting camera n =
     kajiya_kay hair_color light_color 80
       (xyz (normalize_vec4 (mat4_mul (view_matrix camera) (Vec4 n 0)))) light (Vec3 0 0 0)"

definition facing_camera :: Camera where
  "facing_camera =
     \<lparr>viewing_plane = \<lparr>plane_x = Vec3 1 0 0, plane_y = Vec3 0 1 0, plane_z = Vec3 0 0 1,
                        plane_point = Vec3 0 0 0\<rparr>,
      view_matrix = Mat4 (Vec4 (Vec3 1 0 0) 0) (Vec4 (Vec3 0 1 0) 0) (Vec4 (Vec3 0 0 1) 0)
                         (Vec4 (Vec3 0 0 0) 1)\<rparr>"

definition wall_scene :: "bool \<Rightarrow> RTCScene" where
  "wall_scene shadowed =
     \<lparr>nearest_hit = (\<lambda>r. Some (1, \<lparr>Ng = Vec3 0 1 0, hit_u = 0, hit_v = 0, primID = 0, geomID = 0\<rparr>)),
      any_hit = (\<lambda>r. shadowed)\<rparr>"

text \<open>Voxelization fixture: one strand along the diagonal of the unit cube, with its
  bounding box generated, tangents and indices.\<close>

definition diagonal_strand :: "real HairStyle" where
  "diagonal_strand =
     (generate_bounding_box (example_style [1] [Vec3 0 0 0, Vec3 1 1 1]))
       \<lparr>tangents := [Vec3 1 0 0, Vec3 1 0 0], indices := [0, 1]\<rparr>"

section \<open>Basic facts\<close>

lemma floorlog_2_eq:
  assumes "2 ^ (w - 1) \<le> x" "x < 2 ^ w"
  shows "floorlog 2 x = w"
proof -
  have "floorlog 2 x \<le> w" using assms(2) by (intro floorlog_leI) simp_all
  moreover have "w \<le> floorlog 2 x" using assms(1) by (intro floorlog_geI) simp_all
  ultimately show ?thesis by simp
qed

lemma reserve_if [simp]: "(if c then reserve n xs else xs) = xs"
  by simp

lemma xorshift64_zero: "xorshift64 0 = (0, 0)"
  by (simp add: xorshift64_def)

lemma unat_of_nat_u32: "n < 2 ^ 32 \<Longrightarrow> unat (of_nat n :: u32) = n"
  by (simp add: unat_of_nat)

lemma unat_ucast_u16_u32: "unat (ucast (s :: u16) :: u32) = unat s"
proof -
  have "unat s < 2 ^ 16" using unsigned_less [of s] by simp
  then have "unat s < 2 ^ 32" by simp
  then show ?thesis by (simp add: unsigned_ucast_eq take_bit_nat_eq_self)
qed

section \<open>Tangent generation\<close>

lemma forward_tangents_snoc2:
  "forward_tangents (ps @ [p, q]) = forward_tangents (ps @ [p]) @ [normalize_vec (vec_sub q p)]"
  by (induction ps rule: forward_tangents.induct) simp_all

lemma length_forward_tangents: "length (forward_tangents ps) = length ps - 1"
  by (induction ps rule: forward_tangents.induct) simp_all

lemma forward_tangents_nth:
  "j + 1 < length ps \<Longrightarrow> forward_tangents ps ! j = normalize_vec (vec_sub (ps ! (j + 1)) (ps ! j))"
proof (induction ps arbitrary: j rule: forward_tangents.induct)
  case (1 p q ps)
  then show ?case by (cases j) simp_all
qed simp_all

lemma forward_tangents_drop:
  assumes "v + 1 < length vs"
  shows "forward_tangents (take (Suc (Suc k)) (drop v vs)) =
         normalize_vec (vec_sub (vs ! (v + 1)) (vs ! v)) # forward_tangents (take (Suc k) (drop (Suc v) vs))"
proof -
  have "drop v vs = vs ! v # vs ! (v + 1) # drop (Suc (Suc v)) vs"
    using assms by (simp add: Cons_nth_drop_Suc)
  moreover have "drop (Suc v) vs = vs ! (v + 1) # drop (Suc (Suc v)) vs"
    using assms by (simp add: Cons_nth_drop_Suc)
  ultimately show ?thesis by simp
qed

lemma tangent_segments_forward:
  "v + k < length vs \<Longrightarrow>
   tangent_segments k vs (v, ts) = Some (v + k, ts @ forward_tangents (take (k + 1) (drop v vs)))"
proof (induction k arbitrary: v ts)
  case 0
  then show ?case by (simp add: take_Suc_conv_app_nth)
next
  case (Suc k)
  have "v + 1 < length vs" using Suc.prems by simp
  then show ?case
    using Suc.IH [of "v + 1"] Suc.prems
    by (simp add: elem_at_def forward_tangents_drop)
qed

lemma forward_tangents_nonempty: "2 \<le> length ps \<Longrightarrow> forward_tangents ps \<noteq> []"
  using length_forward_tangents [of ps] by (cases "forward_tangents ps") auto

lemma tangent_strand_spec:
  assumes "strand_segment_count a strand = Some c" and "1 \<le> unat c"
    and "v + unat c < length (vertices a)"
  shows "tangent_strand a strand (v, ts) =
         Some (v + unat c + 1, ts @ spec_strand_tangents (take (unat c + 1) (drop v (vertices a))))"
proof -
  let ?ps = "take (unat c + 1) (drop v (vertices a))"
  have "2 \<le> length ?ps" using assms by simp
  then have ne: "forward_tangents ?ps \<noteq> []" by (rule forward_tangents_nonempty)
  show ?thesis
    using assms ne
    by (simp add: tangent_strand_def tangent_segments_forward spec_strand_tangents_def)
qed

lemma for_each_tangent_strand:
  assumes "\<forall>i \<in> set is. strand_segment_count a i = Some (c i) \<and> 1 \<le> unat (c i)"
    and "v + sum_list (map (\<lambda>i. unat (c i) + 1) is) \<le> length (vertices a)"
  shows "for_each (tangent_strand a) is (v, ts) =
         Some (v + sum_list (map (\<lambda>i. unat (c i) + 1) is),
               ts @ concat (map spec_strand_tangents
                       (split_strands (map (\<lambda>i. unat (c i)) is) (drop v (vertices a)))))"
  using assms
proof (induction "is" arbitrary: v ts)
  case Nil
  then show ?case by simp
next
  case (Cons i "is")
  have s: "tangent_strand a i (v, ts) =
         Some (v + unat (c i) + 1, ts @ spec_strand_tangents (take (unat (c i) + 1) (drop v (vertices a))))"
    using Cons.prems by (intro tangent_strand_spec) auto
  have "for_each (tangent_strand a) is (v + unat (c i) + 1, ts @ spec_strand_tangents (take (unat (c i) + 1) (drop v (vertices a)))) = 
     Some (v + unat (c i) + 1 + sum_list (map (\<lambda>i. unat (c i) + 1) is),
               (ts @ spec_strand_tangents (take (unat (c i) + 1) (drop v (vertices a)))) @ concat (map spec_strand_tangents
                       (split_strands (map (\<lambda>i. unat (c i)) is) (drop (v + unat (c i) + 1) (vertices a)))))"
    using Cons.prems by (intro Cons.IH) auto
  then show ?case using s by (simp add: add.commute add.left_commute)
qed


lemma segment_counts_nth:
  assumes "length (segments a) < 2 ^ 32" "i < unat (get_strand_count a)"
  shows "\<exists>c. strand_segment_count a i = Some c \<and> unat c = segment_counts a ! i"
proof (cases "has_segments a")
  case True
  then have "unat (get_strand_count a) = length (segments a)"
    using assms(1) by (simp add: get_strand_count_def has_segments_def unat_of_nat_u32)
  then show ?thesis using True assms(2)
    by (simp add: strand_segment_count_def segment_counts_def elem_at_def unat_ucast_u16_u32)
next
  case False
  then show ?thesis using assms(2)
    by (simp add: strand_segment_count_def segment_counts_def get_strand_count_def
        has_segments_def get_default_segment_count_def)
qed

lemma length_segment_counts:
  "length (segments a) < 2 ^ 32 \<Longrightarrow> length (segment_counts a) = unat (get_strand_count a)"
  by (simp add: segment_counts_def get_strand_count_def has_segments_def unat_of_nat_u32)

lemma spec_strand_tangents_length:
  "2 \<le> length ps \<Longrightarrow> length (spec_strand_tangents ps) = length ps"
  by (simp add: spec_strand_tangents_def length_forward_tangents)

lemma spec_strand_tangents_nth:
  assumes "j + 1 < length ps"
  shows "spec_strand_tangents ps ! j = normalize_vec (vec_sub (ps ! (j + 1)) (ps ! j))"
proof -
  have "j < length (forward_tangents ps)"
    using assms by (simp add: length_forward_tangents)
  then have "spec_strand_tangents ps ! j = forward_tangents ps ! j"
    by (simp add: spec_strand_tangents_def nth_append)
  then show ?thesis using assms by (simp add: forward_tangents_nth)
qed

lemma spec_strand_tangents_tip:
  assumes "length ps = Suc (Suc k)"
  shows "spec_strand_tangents ps ! Suc k = spec_strand_tangents ps ! k"
proof -
  have l: "length (forward_tangents ps) = Suc k"
    using assms by (simp add: length_forward_tangents)
  then have ne: "forward_tangents ps \<noteq> []" by auto
  have "spec_strand_tangents ps ! Suc k = last (forward_tangents ps)"
    using l by (simp add: spec_strand_tangents_def nth_append)
  also have "\<dots> = forward_tangents ps ! k"
    using l ne by (simp add: last_conv_nth)
  also have "\<dots> = spec_strand_tangents ps ! k"
    using l by (simp add: spec_strand_tangents_def nth_append)
  finally show ?thesis .
qed

text \<open>
  When every strand has at least one segment and the vertex
  array holds the vertices of all strands, \<open>generate_tangents\<close> succeeds, and strand by
  strand the tangents are the normalised forward differences of the strand's vertices,
  followed by a copy of the last of them for the strand's tip.
\<close>

lemma generate_tangents_strandwise:
  assumes "length (segments a) < 2 ^ 32"
    and "\<forall>k \<in> set (segment_counts a). 1 \<le> k"
    and "sum_list (map Suc (segment_counts a)) \<le> length (vertices a)"
  shows "generate_tangents a =
         Some (a\<lparr>tangents := concat (map spec_strand_tangents
                                 (split_strands (segment_counts a) (vertices a)))\<rparr>)"
proof -
  let ?n = "unat (get_strand_count a)"
  define c where "c i = (SOME c. strand_segment_count a i = Some c \<and> unat c = segment_counts a ! i)" for i
  have c: "strand_segment_count a i = Some (c i) \<and> unat (c i) = segment_counts a ! i" if "i < ?n" for i
    unfolding c_def using segment_counts_nth [OF assms(1) that] by (rule someI_ex)
  have len: "length (segment_counts a) = ?n" using assms(1) by (rule length_segment_counts)
  have m: "map (\<lambda>i. unat (c i)) [0 ..< ?n] = segment_counts a"
    using c len by (intro nth_equalityI) auto
  have m1: "map (\<lambda>i. unat (c i) + 1) [0 ..< ?n] = map Suc (segment_counts a)"
    using c len by (intro nth_equalityI) auto
  have "\<forall>i \<in> set [0 ..< ?n]. strand_segment_count a i = Some (c i) \<and> 1 \<le> unat (c i)"
    using c assms(2) len by (auto simp: all_set_conv_all_nth)
  moreover have "0 + sum_list (map (\<lambda>i. unat (c i) + 1) [0 ..< ?n]) \<le> length (vertices a)"
    using assms(3) m1 by simp
  ultimately have "for_each (tangent_strand a) [0 ..< ?n] (0, []) =
         Some (0 + sum_list (map (\<lambda>i. unat (c i) + 1) [0 ..< ?n]),
               [] @ concat (map spec_strand_tangents
                       (split_strands (map (\<lambda>i. unat (c i)) [0 ..< ?n]) (drop 0 (vertices a)))))"
    by (rule for_each_tangent_strand)
  then show ?thesis by (simp add: generate_tangents_def m)
qed


lemma normalize_vec_unit_x: "normalize_vec (Vec3 1 0 0) = Vec3 1 0 0"
  by (simp add: normalize_vec_def vec_dot_def vec_scale_def)

lemma normalize_vec_unit_y: "normalize_vec (Vec3 0 1 0) = Vec3 0 1 0"
  by (simp add: normalize_vec_def vec_dot_def vec_scale_def)

lemma generate_tangents_three_vertices:
  "generate_tangents (example_style [2] [Vec3 0 0 0, Vec3 1 0 0, Vec3 1 1 0]) =
     Some ((example_style [2] [Vec3 0 0 0, Vec3 1 0 0, Vec3 1 1 0])
             \<lparr>tangents := [Vec3 1 0 0, Vec3 0 1 0, Vec3 0 1 0]\<rparr>)"
proof -
  let ?a = "example_style [2] [Vec3 0 0 0, Vec3 1 0 0, Vec3 1 1 0]"
  have sc: "segment_counts ?a = [2]"
    by (simp add: segment_counts_def has_segments_def example_style_def)
  have v: "vertices ?a = [Vec3 0 0 0, Vec3 1 0 0, Vec3 1 1 0]"
    by (simp add: example_style_def)
  have "length (segments ?a) < 2 ^ 32" by (simp add: example_style_def)
  moreover have "\<forall>k \<in> set (segment_counts ?a). 1 \<le> k" by (simp add: sc)
  moreover have "sum_list (map Suc (segment_counts ?a)) \<le> length (vertices ?a)"
    by (simp add: sc v)
  ultimately have "generate_tangents ?a =
         Some (?a\<lparr>tangents := concat (map spec_strand_tangents
                                 (split_strands (segment_counts ?a) (vertices ?a)))\<rparr>)"
    by (rule generate_tangents_strandwise)
  moreover have "concat (map spec_strand_tangents (split_strands (segment_counts ?a) (vertices ?a)))
      = [Vec3 1 0 0, Vec3 0 1 0, Vec3 0 1 0]"
    unfolding sc v
    by (simp add: spec_strand_tangents_def vec_sub_def normalize_vec_unit_x normalize_vec_unit_y)
  ultimately show ?thesis by simp
qed

text \<open>
  With strands of no segment as well, provided the first strand has a segment:
  \<open>generate_tangents\<close> succeeds, and the single vertex of a strand without a segment
  gets the tangent pushed last, the tip of the strand before it.
\<close>

lemma tangent_strand_general:
  assumes "strand_segment_count a strand = Some c"
    and "v + unat c < length (vertices a)"
    and "ts \<noteq> [] \<or> 1 \<le> unat c"
  shows "tangent_strand a strand (v, ts) =
         Some (v + unat c + 1,
               ts @ forward_tangents (take (unat c + 1) (drop v (vertices a)))
                  @ [last (ts @ forward_tangents (take (unat c + 1) (drop v (vertices a))))])"
proof -
  let ?ps = "take (unat c + 1) (drop v (vertices a))"
  have "ts @ forward_tangents ?ps \<noteq> []"
  proof (cases "ts = []")
    case True
    then have "2 \<le> length ?ps" using assms by simp
    then show ?thesis using forward_tangents_nonempty by simp
  next
    case False
    then show ?thesis by simp
  qed
  then show ?thesis
    using assms(1,2) by (simp add: tangent_strand_def tangent_segments_forward)
qed

lemma for_each_tangent_strand_general:
  assumes "\<forall>i \<in> set is. strand_segment_count a i = Some (c i)"
    and "v + sum_list (map (\<lambda>i. unat (c i) + 1) is) \<le> length (vertices a)"
    and "ts \<noteq> [] \<or> is = [] \<or> 1 \<le> unat (c (hd is))"
  shows "for_each (tangent_strand a) is (v, ts) =
         Some (v + sum_list (map (\<lambda>i. unat (c i) + 1) is),
               strands_tangents ts (split_strands (map (\<lambda>i. unat (c i)) is) (drop v (vertices a))))"
  using assms
proof (induction "is" arbitrary: v ts)
  case Nil
  then show ?case by simp
next
  case (Cons i "is")
  let ?ps = "take (unat (c i) + 1) (drop v (vertices a))"
  let ?ts = "ts @ forward_tangents ?ps @ [last (ts @ forward_tangents ?ps)]"
  have s: "tangent_strand a i (v, ts) = Some (v + unat (c i) + 1, ?ts)"
    using Cons.prems by (intro tangent_strand_general) auto
  have "for_each (tangent_strand a) is (v + unat (c i) + 1, ?ts) =
     Some (v + unat (c i) + 1 + sum_list (map (\<lambda>i. unat (c i) + 1) is),
           strands_tangents ?ts
             (split_strands (map (\<lambda>i. unat (c i)) is) (drop (v + unat (c i) + 1) (vertices a))))"
    using Cons.prems by (intro Cons.IH) auto
  then show ?case using s by (simp add: add.commute add.left_commute)
qed

lemma generate_tangents_after_first:
  assumes "length (segments a) < 2 ^ 32"
    and "segment_counts a = [] \<or> 1 \<le> hd (segment_counts a)"
    and "sum_list (map Suc (segment_counts a)) \<le> length (vertices a)"
  shows "generate_tangents a =
         Some (a\<lparr>tangents := strands_tangents []
                                 (split_strands (segment_counts a) (vertices a))\<rparr>)"
proof -
  let ?n = "unat (get_strand_count a)"
  define c where "c i = (SOME c. strand_segment_count a i = Some c \<and> unat c = segment_counts a ! i)" for i
  have c: "strand_segment_count a i = Some (c i) \<and> unat (c i) = segment_counts a ! i" if "i < ?n" for i
    unfolding c_def using segment_counts_nth [OF assms(1) that] by (rule someI_ex)
  have len: "length (segment_counts a) = ?n" using assms(1) by (rule length_segment_counts)
  have m: "map (\<lambda>i. unat (c i)) [0 ..< ?n] = segment_counts a"
    using c len by (intro nth_equalityI) auto
  have m1: "map (\<lambda>i. unat (c i) + 1) [0 ..< ?n] = map Suc (segment_counts a)"
    using c len by (intro nth_equalityI) auto
  have a1: "\<forall>i \<in> set [0 ..< ?n]. strand_segment_count a i = Some (c i)"
    using c by simp
  have a2: "0 + sum_list (map (\<lambda>i. unat (c i) + 1) [0 ..< ?n]) \<le> length (vertices a)"
    using assms(3) m1 by simp
  have a3: "([] :: real vec3 list) \<noteq> [] \<or> [0 ..< ?n] = [] \<or> 1 \<le> unat (c (hd [0 ..< ?n]))"
  proof (cases "?n = 0")
    case True
    then show ?thesis by simp
  next
    case False
    then have "segment_counts a \<noteq> []" using len by auto
    then have "1 \<le> segment_counts a ! 0" using assms(2) by (simp add: hd_conv_nth)
    moreover have "hd [0 ..< ?n] = 0" using False by (simp add: upt_conv_Cons)
    ultimately show ?thesis using c [of 0] False by simp
  qed
  have "for_each (tangent_strand a) [0 ..< ?n] (0, []) =
         Some (0 + sum_list (map (\<lambda>i. unat (c i) + 1) [0 ..< ?n]),
               strands_tangents []
                 (split_strands (map (\<lambda>i. unat (c i)) [0 ..< ?n]) (drop 0 (vertices a))))"
    using a1 a2 a3 by (rule for_each_tangent_strand_general)
  then show ?thesis by (simp add: generate_tangents_def m)
qed

lemma generate_tangents_later_lone_vertex:
  "generate_tangents (example_style [1, 0] [Vec3 0 0 0, Vec3 1 0 0, Vec3 5 5 5]) =
     Some ((example_style [1, 0] [Vec3 0 0 0, Vec3 1 0 0, Vec3 5 5 5])
             \<lparr>tangents := [Vec3 1 0 0, Vec3 1 0 0, Vec3 1 0 0]\<rparr>)"
proof -
  let ?a = "example_style [1, 0] [Vec3 0 0 0, Vec3 1 0 0, Vec3 5 5 5]"
  have sc: "segment_counts ?a = [1, 0]"
    by (simp add: segment_counts_def has_segments_def example_style_def)
  have v: "vertices ?a = [Vec3 0 0 0, Vec3 1 0 0, Vec3 5 5 5]"
    by (simp add: example_style_def)
  have "length (segments ?a) < 2 ^ 32" by (simp add: example_style_def)
  moreover have "segment_counts ?a = [] \<or> 1 \<le> hd (segment_counts ?a)" by (simp add: sc)
  moreover have "sum_list (map Suc (segment_counts ?a)) \<le> length (vertices ?a)"
    by (simp add: sc v)
  ultimately have "generate_tangents ?a =
         Some (?a\<lparr>tangents := strands_tangents []
                                 (split_strands (segment_counts ?a) (vertices ?a))\<rparr>)"
    by (rule generate_tangents_after_first)
  moreover have "strands_tangents [] (split_strands (segment_counts ?a) (vertices ?a))
      = [Vec3 1 0 0, Vec3 1 0 0, Vec3 1 0 0]"
    unfolding sc v
    by (simp add: vec_sub_def normalize_vec_unit_x)
  ultimately show ?thesis by simp
qed

text \<open>
  Claim C7 at its boundary case, a strand of segment length 0. When the first strand of an
  asset has no segment, the inner loop of \<open>generate_tangents\<close> pushes nothing and
  \<open>tangents.push_back(tangents.back())\<close> reads the last element of an empty vector:
  the behaviour is undefined and no tangent array is produced, where the claim has the
  property hold with one tangent per vertex.
\<close>

theorem generate_tangents_leading_lone_vertex:
  assumes "length (segments a) < 2 ^ 32"
    and "segment_counts a \<noteq> []"
    and "hd (segment_counts a) = 0"
  shows "generate_tangents a = None"
proof -
  let ?n = "unat (get_strand_count a)"
  have len: "length (segment_counts a) = ?n" using assms(1) by (rule length_segment_counts)
  have "0 < length (segment_counts a)" using assms(2) by simp
  then have n: "0 < ?n" by (simp only: len)
  obtain c where c: "strand_segment_count a 0 = Some c" "unat c = segment_counts a ! 0"
    using segment_counts_nth [OF assms(1) n] by blast
  have "segment_counts a ! 0 = 0" using assms(2,3) by (simp add: hd_conv_nth)
  then have "unat c = 0" using c(2) by simp
  then have "tangent_strand a 0 (0, []) = None"
    using c(1) by (simp add: tangent_strand_def)
  moreover have "[0 ..< ?n] = 0 # [1 ..< ?n]" using n by (simp add: upt_conv_Cons)
  ultimately have "for_each (tangent_strand a) [0 ..< ?n] (0, []) = None" by simp
  then show ?thesis by (simp add: generate_tangents_def)
qed

theorem generate_tangents_lone_vertex:
  "generate_tangents (example_style [0] [Vec3 0 0 0]) = None"
proof -
  let ?a = "example_style [0] [Vec3 0 0 0]"
  have "segment_counts ?a = [0]"
    by (simp add: segment_counts_def has_segments_def example_style_def)
  then have "segment_counts ?a \<noteq> []" "hd (segment_counts ?a) = 0" by simp_all
  moreover have "length (segments ?a) < 2 ^ 32" by (simp add: example_style_def)
  ultimately show ?thesis using generate_tangents_leading_lone_vertex [of ?a] by blast
qed

section \<open>Bounding box\<close>

lemma fold_grow_aabb:
  "fold grow_aabb vs (mn, mx) =
     (Vec3 (fold min (map vx vs) (vx mn)) (fold min (map vy vs) (vy mn)) (fold min (map vz vs) (vz mn)),
      Vec3 (fold max (map vx vs) (vx mx)) (fold max (map vy vs) (vy mx)) (fold max (map vz vs) (vz mx)))"
  by (induction vs arbitrary: mn mx) (simp_all add: grow_aabb_def)

lemma bounding_box_origin:
  "aabb_origin (get_bounding_box (generate_bounding_box a)) =
     Vec3 (Min (insert 0 (vx ` set (vertices a))))
          (Min (insert 0 (vy ` set (vertices a))))
          (Min (insert 0 (vz ` set (vertices a))))"
  by (simp add: get_bounding_box_def generate_bounding_box_def fold_grow_aabb Let_def
      Min.set_eq_fold [symmetric])

text \<open>
  Claim C3 at a strictly positive point cloud: the reduction starts from the zero vector,
  so the reported origin is the zero vector and the size is the maximum, where the claim
  asks for origin \<open>(1, 1, 1)\<close> and size \<open>(1, 2, 3)\<close>.
\<close>

theorem bounding_box_positive_cloud:
  "aabb_origin (get_bounding_box (generate_bounding_box
      (example_style [1] [Vec3 1 1 1, Vec3 2 3 4]))) = Vec3 0 0 0
   \<and> aabb_size (get_bounding_box (generate_bounding_box
      (example_style [1] [Vec3 1 1 1, Vec3 2 3 4]))) = Vec3 2 3 4"
  by (simp add: get_bounding_box_def generate_bounding_box_def example_style_def
      grow_aabb_def Let_def vec_sub_def)

theorem bounding_box_positive_cloud_not_tight:
  "aabb_origin (get_bounding_box (generate_bounding_box
      (example_style [1] [Vec3 1 1 1, Vec3 2 3 4]))) \<noteq> Vec3 1 1 1"
  using bounding_box_positive_cloud by simp

section \<open>Fused buffers\<close>

text \<open>What the three accessors return when the optional arrays are absent: the
  transparency and colour accessors use the header's defaults, the thickness accessor the
  constant 0.042.\<close>

lemma those_map_Some:
  "(\<And>x. x \<in> set xs \<Longrightarrow> f x = Some (g x)) \<Longrightarrow> those (map f xs) = Some (map g xs)"
  by (induction xs) simp_all

lemma sint_of_nat_small:
  assumes "n < 2 ^ 31"
  shows "\<not> sint (of_nat n :: u32) < 0"
proof -
  have "- (2 ^ 31) \<le> int n" "int n < 2 ^ 31" using assms by simp_all
  then have "signed_take_bit 31 (int n) = int n"
    by (rule signed_take_bit_int_eq_self)
  then have "sint (of_nat n :: u32) = int n"
    by (simp add: signed_of_nat)
  then show ?thesis by simp
qed

lemma fused_buffer_Some:
  assumes "\<not> sint n < 0" and "\<And>i. i < unat n \<Longrightarrow> entry i = Some (g i)"
  shows "fused_buffer n entry = Some (map g [0 ..< unat n])"
proof -
  have "those (map entry [0 ..< unat n]) = Some (map g [0 ..< unat n])"
    using assms(2) by (intro those_map_Some) simp
  then show ?thesis using assms(1) by (simp add: fused_buffer_def)
qed

lemma create_position_thickness_data_absent:
  assumes "\<not> has_thickness a" and "length (vertices a) < 2 ^ 31"
  shows "create_position_thickness_data a = Some (map (\<lambda>v. Vec4 v (42 / 1000)) (vertices a))"
proof -
  have n: "unat (get_vertex_count a) = length (vertices a)"
    using assms(2) by (simp add: get_vertex_count_def unat_of_nat_u32)
  have "create_position_thickness_data a =
          Some (map (\<lambda>i. Vec4 (vertices a ! i) (42 / 1000)) [0 ..< unat (get_vertex_count a)])"
    unfolding create_position_thickness_data_def
    using assms n
    by (intro fused_buffer_Some) (simp_all add: get_vertex_count_def sint_of_nat_small elem_at_def)
  moreover have "map (\<lambda>i. Vec4 (vertices a ! i) (42 / 1000)) [0 ..< length (vertices a)]
      = map (\<lambda>v. Vec4 v (42 / 1000)) (vertices a)"
    by (intro nth_equalityI) simp_all
  ultimately show ?thesis unfolding n by simp
qed

lemma create_tangent_transparency_data_absent:
  assumes "\<not> has_transparency a" and "length (vertices a) < 2 ^ 31"
    and "length (vertices a) \<le> length (tangents a)"
  shows "create_tangent_transparency_data a =
           Some (map (\<lambda>t. Vec4 t (get_default_transparency a)) (take (length (vertices a)) (tangents a)))"
proof -
  have n: "unat (get_vertex_count a) = length (vertices a)"
    using assms(2) by (simp add: get_vertex_count_def unat_of_nat_u32)
  have "create_tangent_transparency_data a =
          Some (map (\<lambda>i. Vec4 (tangents a ! i) (get_default_transparency a))
                  [0 ..< unat (get_vertex_count a)])"
    unfolding create_tangent_transparency_data_def
    using assms n
    by (intro fused_buffer_Some) (simp_all add: get_vertex_count_def sint_of_nat_small elem_at_def)
  moreover have "map (\<lambda>i. Vec4 (tangents a ! i) (get_default_transparency a)) [0 ..< length (vertices a)]
      = map (\<lambda>t. Vec4 t (get_default_transparency a)) (take (length (vertices a)) (tangents a))"
    using assms(3) by (intro nth_equalityI) simp_all
  ultimately show ?thesis unfolding n by simp
qed

lemma create_color_transparency_data_absent:
  assumes "\<not> has_transparency a" and "\<not> has_color a" and "length (vertices a) < 2 ^ 31"
  shows "create_color_transparency_data a =
           Some (replicate (length (vertices a))
                   (Vec4 (get_default_color a) (get_default_transparency a)))"
proof -
  have n: "unat (get_vertex_count a) = length (vertices a)"
    using assms(3) by (simp add: get_vertex_count_def unat_of_nat_u32)
  have "create_color_transparency_data a =
          Some (map (\<lambda>i. Vec4 (get_default_color a) (get_default_transparency a))
                  [0 ..< unat (get_vertex_count a)])"
    unfolding create_color_transparency_data_def
    using assms n
    by (intro fused_buffer_Some) (simp_all add: get_vertex_count_def sint_of_nat_small)
  then show ?thesis unfolding n by (simp add: map_replicate_const)
qed

lemma create_position_thickness_data_present:
  assumes "has_thickness a" and "length (vertices a) < 2 ^ 31"
    and "length (thickness a) = length (vertices a)"
  shows "create_position_thickness_data a =
           Some (map (\<lambda>(v, t). Vec4 v t) (zip (vertices a) (thickness a)))"
proof -
  have n: "unat (get_vertex_count a) = length (vertices a)"
    using assms(2) by (simp add: get_vertex_count_def unat_of_nat_u32)
  have "create_position_thickness_data a =
          Some (map (\<lambda>i. Vec4 (vertices a ! i) (thickness a ! i)) [0 ..< unat (get_vertex_count a)])"
    unfolding create_position_thickness_data_def
    using assms n
    by (intro fused_buffer_Some) (simp_all add: get_vertex_count_def sint_of_nat_small elem_at_def)
  moreover have "map (\<lambda>i. Vec4 (vertices a ! i) (thickness a ! i)) [0 ..< length (vertices a)]
      = map (\<lambda>(v, t). Vec4 v t) (zip (vertices a) (thickness a))"
    using assms(3) by (intro nth_equalityI) simp_all
  ultimately show ?thesis unfolding n by simp
qed

text \<open>
  Claim C9 at an asset without a thickness array whose header default thickness is 1:
  \<open>create_position_thickness_data\<close> pairs every position with the constant 0.042,
  not with the header's default thickness.
\<close>

theorem position_thickness_ignores_default:
  "get_default_thickness (example_style [1] [Vec3 1 1 1, Vec3 2 3 4]) = 1
   \<and> create_position_thickness_data (example_style [1] [Vec3 1 1 1, Vec3 2 3 4]) =
       Some [Vec4 (Vec3 1 1 1) (42 / 1000), Vec4 (Vec3 2 3 4) (42 / 1000)]"
  by (simp add: create_position_thickness_data_def example_style_def fused_buffer_def
      get_vertex_count_def has_thickness_def elem_at_def upt_conv_Cons
      get_default_thickness_def example_header_def)


section \<open>Rounding to \<open>float\<close>\<close>

text \<open>A real of the form \<open>m * 2^e * float_min\<close> with \<open>\<bar>m\<bar> < 2^24\<close> is a
  \<open>float\<close>: rounding leaves it as it is. Every rounded value has that form, rounding is
  monotone against such a value, and the rounded value of a whole number is a whole
  number.\<close>

lemma round_half_even_of_int: "round_half_even (of_int m) = m"
  by (simp add: round_half_even_def)

lemma round_half_even_le: "x \<le> of_int k \<Longrightarrow> round_half_even x \<le> k"
  unfolding round_half_even_def Let_def
  by (auto; linarith)

lemma round_half_even_ge: "of_int k \<le> x \<Longrightarrow> k \<le> round_half_even x"
  unfolding round_half_even_def Let_def
  by (auto; linarith)

lemma power_split: "a \<le> b \<Longrightarrow> (2::real) ^ b = 2 ^ (b - a) * 2 ^ a"
  by (metis le_add_diff_inverse2 power_add)

lemma float_min_pos: "0 < float_min"
  by (simp add: float_min_def)

lemma float_ulp_pos: "0 < float_ulp x"
  using float_min_pos by (simp add: float_ulp_def)

lemma float_ulp_mono:
  assumes "\<bar>x\<bar> \<le> \<bar>y\<bar>"
  shows "\<exists>k. float_ulp y = 2 ^ k * float_ulp x"
proof -
  let ?ex = "floorlog 2 (nat \<lfloor>\<bar>x\<bar> / float_min\<rfloor>) - 24"
  let ?ey = "floorlog 2 (nat \<lfloor>\<bar>y\<bar> / float_min\<rfloor>) - 24"
  have "\<bar>x\<bar> / float_min \<le> \<bar>y\<bar> / float_min"
    using assms float_min_pos by (simp add: divide_right_mono)
  then have "nat \<lfloor>\<bar>x\<bar> / float_min\<rfloor> \<le> nat \<lfloor>\<bar>y\<bar> / float_min\<rfloor>"
    by (intro nat_mono floor_mono)
  then have "?ex \<le> ?ey" by (intro diff_le_mono floorlog_mono)
  then have "(2::real) ^ ?ey = 2 ^ (?ey - ?ex) * 2 ^ ?ex"
    by (rule power_split)
  then have "float_ulp y = 2 ^ (?ey - ?ex) * float_ulp x"
    by (simp add: float_ulp_def)
  then show ?thesis by blast
qed

lemma float_ulp_exact:
  assumes "\<bar>m\<bar> < 2 ^ 24"
  shows "\<exists>k. (2::real) ^ e * float_min = 2 ^ k * float_ulp (of_int m * 2 ^ e * float_min)"
proof -
  let ?x = "of_int m * 2 ^ e * float_min :: real"
  let ?y = "nat \<lfloor>\<bar>?x\<bar> / float_min\<rfloor>"
  have "\<bar>?x\<bar> / float_min = of_int (\<bar>m\<bar> * 2 ^ e)"
    using float_min_pos by (simp add: abs_mult)
  then have "?y = nat (\<bar>m\<bar> * 2 ^ e)" by (simp only: floor_of_int)
  moreover have "nat (\<bar>m\<bar> * 2 ^ e) < 2 ^ (24 + e)"
  proof -
    have "\<bar>m\<bar> * 2 ^ e < 2 ^ 24 * 2 ^ e" using assms by simp
    then have "\<bar>m\<bar> * 2 ^ e < 2 ^ (24 + e)" by (simp only: power_add)
    then show ?thesis by (simp add: nat_less_iff)
  qed
  ultimately have "?y < 2 ^ (24 + e)" by simp
  then have "floorlog 2 ?y \<le> 24 + e" by (intro floorlog_leI) simp_all
  then have le: "floorlog 2 ?y - 24 \<le> e" by simp
  then have "(2::real) ^ e = 2 ^ (e - (floorlog 2 ?y - 24)) * 2 ^ (floorlog 2 ?y - 24)"
    by (rule power_split)
  then have "(2::real) ^ e * float_min = 2 ^ (e - (floorlog 2 ?y - 24)) * float_ulp ?x"
    unfolding float_ulp_def by simp
  then show ?thesis by blast
qed

lemma to_float_multiple:
  assumes "x = of_int n * float_ulp x"
  shows "to_float x = x"
proof -
  have "x / float_ulp x = of_int n"
    using assms float_ulp_pos [of x] by (metis nonzero_mult_div_cancel_right less_irrefl)
  then have "round_half_even (x / float_ulp x) = n"
    by (simp only: round_half_even_of_int)
  then show ?thesis unfolding to_float_def using assms by simp
qed

lemma to_float_exact:
  assumes "\<bar>m\<bar> < 2 ^ 24"
  shows "to_float (of_int m * 2 ^ e * float_min) = of_int m * 2 ^ e * float_min"
proof -
  let ?x = "of_int m * 2 ^ e * float_min :: real"
  obtain k where k: "(2::real) ^ e * float_min = 2 ^ k * float_ulp ?x"
    using float_ulp_exact [OF assms] by blast
  have "?x = of_int m * ((2::real) ^ e * float_min)" by simp
  also have "\<dots> = of_int (m * 2 ^ k) * float_ulp ?x" by (simp only: k) simp
  finally show ?thesis by (rule to_float_multiple)
qed

lemma to_float_le:
  assumes "x \<le> of_int m * 2 ^ e * float_min" and "\<bar>x\<bar> \<le> \<bar>of_int m * 2 ^ e * float_min\<bar>"
    and "\<bar>m\<bar> < 2 ^ 24"
  shows "to_float x \<le> of_int m * 2 ^ e * float_min"
proof -
  let ?y = "of_int m * 2 ^ e * float_min :: real"
  obtain k where k: "(2::real) ^ e * float_min = 2 ^ k * float_ulp ?y"
    using float_ulp_exact [OF assms(3)] by blast
  obtain j where j: "float_ulp ?y = 2 ^ j * float_ulp x"
    using float_ulp_mono [OF assms(2)] by blast
  have "?y = of_int m * ((2::real) ^ e * float_min)" by simp
  also have "\<dots> = of_int (m * 2 ^ k * 2 ^ j) * float_ulp x" by (simp only: k j) simp
  finally have y: "?y = of_int (m * 2 ^ k * 2 ^ j) * float_ulp x" .
  have "x / float_ulp x \<le> ?y / float_ulp x"
    using assms(1) float_ulp_pos [of x] by (intro divide_right_mono) simp_all
  also have "?y / float_ulp x = of_int (m * 2 ^ k * 2 ^ j)"
    using y float_ulp_pos [of x] by (metis nonzero_mult_div_cancel_right less_irrefl)
  finally have "round_half_even (x / float_ulp x) \<le> m * 2 ^ k * 2 ^ j"
    by (rule round_half_even_le)
  then have "of_int (round_half_even (x / float_ulp x)) \<le> (of_int (m * 2 ^ k * 2 ^ j) :: real)"
    by (simp only: of_int_le_iff)
  then have "of_int (round_half_even (x / float_ulp x)) * float_ulp x
             \<le> of_int (m * 2 ^ k * 2 ^ j) * float_ulp x"
    using float_ulp_pos [of x] by (intro mult_right_mono) simp_all
  then have "to_float x \<le> of_int (m * 2 ^ k * 2 ^ j) * float_ulp x"
    by (simp only: to_float_def)
  then show ?thesis by (simp only: y [symmetric])
qed

lemma to_float_nonneg:
  assumes "0 \<le> x"
  shows "0 \<le> to_float x"
proof -
  have "of_int 0 \<le> x / float_ulp x" using assms float_ulp_pos [of x] by simp
  then have "0 \<le> round_half_even (x / float_ulp x)" by (rule round_half_even_ge)
  then show ?thesis unfolding to_float_def using float_ulp_pos [of x] by simp
qed

lemma float_min_149: "2 ^ 149 * float_min = 1"
  by (simp add: float_min_def)

lemma to_float_small_int:
  assumes "\<bar>i\<bar> < 2 ^ 24"
  shows "to_float (of_int i) = of_int i"
proof -
  have "of_int i * 2 ^ 149 * float_min = (of_int i :: real)"
    by (simp only: mult.assoc float_min_149 mult_1_right)
  then show ?thesis using to_float_exact [OF assms, of 149] by (simp only:)
qed

lemma below_float_ulp: "\<bar>x\<bar> < 2 ^ 24 * float_ulp x"
proof -
  let ?Y = "nat \<lfloor>\<bar>x\<bar> / float_min\<rfloor>"
  let ?F = "floorlog 2 ?Y"
  have "?Y < 2 ^ ?F" by (rule floorlog_leD) simp_all
  then have "\<lfloor>\<bar>x\<bar> / float_min\<rfloor> < (2::int) ^ ?F" by (simp add: nat_less_iff)
  then have "\<bar>x\<bar> / float_min < of_int ((2::int) ^ ?F)" by (simp only: floor_less_iff)
  then have a: "\<bar>x\<bar> / float_min < 2 ^ ?F" by simp
  have "?F \<le> 24 + (?F - 24)" by simp
  then have "(2::real) ^ ?F \<le> 2 ^ (24 + (?F - 24))"
    by (intro power_increasing) simp_all
  then have "\<bar>x\<bar> / float_min < 2 ^ 24 * 2 ^ (?F - 24)"
    using a by (simp only: power_add)
  then have "\<bar>x\<bar> < 2 ^ 24 * 2 ^ (?F - 24) * float_min"
    using float_min_pos by (simp only: pos_divide_less_eq)
  then show ?thesis by (simp add: float_ulp_def mult.assoc)
qed

lemma round_half_even_abs:
  assumes "\<bar>x\<bar> \<le> of_int k"
  shows "\<bar>round_half_even x\<bar> \<le> k"
proof -
  have "x \<le> of_int k" using assms by simp
  then have a: "round_half_even x \<le> k" by (rule round_half_even_le)
  have "of_int (- k) \<le> x" using assms by simp
  then have "- k \<le> round_half_even x" by (rule round_half_even_ge)
  then show ?thesis using a by simp
qed

lemma to_float_shape:
  "\<exists>m e. \<bar>m\<bar> < 2 ^ 24 \<and> to_float x = of_int m * 2 ^ e * float_min"
proof -
  let ?E = "floorlog 2 (nat \<lfloor>\<bar>x\<bar> / float_min\<rfloor>) - 24"
  let ?r = "round_half_even (x / float_ulp x)"
  have u: "float_ulp x = 2 ^ ?E * float_min" by (simp add: float_ulp_def)
  have z: "to_float x = of_int ?r * 2 ^ ?E * float_min"
    by (simp add: to_float_def u)
  have "\<bar>x\<bar> / float_ulp x < 2 ^ 24"
    using below_float_ulp [of x] float_ulp_pos [of x] by (simp only: pos_divide_less_eq)
  then have "\<bar>x / float_ulp x\<bar> \<le> of_int (2 ^ 24)"
    using float_ulp_pos [of x] by simp
  then have r: "\<bar>?r\<bar> \<le> 2 ^ 24" by (rule round_half_even_abs)
  show ?thesis
  proof (cases "\<bar>?r\<bar> < 2 ^ 24")
    case True
    then show ?thesis using z by blast
  next
    case False
    then have "\<bar>?r\<bar> = 2 ^ 24" using r by simp
    then consider "?r = 2 ^ 24" | "?r = - (2 ^ 24)" by linarith
    then show ?thesis
    proof cases
      case 1
      have "to_float x = of_int (2 ^ 23) * 2 ^ (Suc ?E) * float_min"
        unfolding z 1 by simp
      moreover have "\<bar>2 ^ 23 :: int\<bar> < 2 ^ 24" by simp
      ultimately show ?thesis by blast
    next
      case 2
      have "to_float x = of_int (- (2 ^ 23)) * 2 ^ (Suc ?E) * float_min"
        unfolding z 2 by simp
      moreover have "\<bar>- (2 ^ 23) :: int\<bar> < 2 ^ 24" by simp
      ultimately show ?thesis by blast
    qed
  qed
qed

lemma to_float_idem: "to_float (to_float x) = to_float x"
proof -
  obtain m e where "\<bar>m\<bar> < 2 ^ 24" "to_float x = of_int m * 2 ^ e * float_min"
    using to_float_shape by blast
  then show ?thesis using to_float_exact [of m e] by simp
qed

lemma to_float_below:
  assumes "0 \<le> x" "x \<le> to_float y"
  shows "to_float x \<le> to_float y"
proof -
  obtain m e where m: "\<bar>m\<bar> < 2 ^ 24" and y: "to_float y = of_int m * 2 ^ e * float_min"
    using to_float_shape by blast
  have "\<bar>x\<bar> \<le> \<bar>to_float y\<bar>" using assms by simp
  then show ?thesis using to_float_le [of x m e] assms(2) m unfolding y by blast
qed

lemma to_float_of_int: "\<exists>k. to_float (of_int i) = of_int k"
proof (cases "\<bar>i\<bar> < 2 ^ 24")
  case True
  then show ?thesis using to_float_small_int by blast
next
  case False
  let ?x = "of_int i :: real"
  let ?Y = "nat \<lfloor>\<bar>?x\<bar> / float_min\<rfloor>"
  have "\<bar>?x\<bar> / float_min = of_int (\<bar>i\<bar> * 2 ^ 149)"
    by (simp add: float_min_def)
  then have Y: "?Y = nat (\<bar>i\<bar> * 2 ^ 149)" by (simp only: floor_of_int)
  have "(2::int) ^ 24 * 2 ^ 149 \<le> \<bar>i\<bar> * 2 ^ 149" using False by simp
  then have "(2::int) ^ (174 - 1) \<le> \<bar>i\<bar> * 2 ^ 149" by simp
  then have "(2::nat) ^ (174 - 1) \<le> ?Y" unfolding Y by (simp add: le_nat_iff)
  then have "174 \<le> floorlog 2 ?Y" by (intro floorlog_geI) simp_all
  then have "149 \<le> floorlog 2 ?Y - 24" by simp
  then have "(2::real) ^ (floorlog 2 ?Y - 24) = 2 ^ (floorlog 2 ?Y - 24 - 149) * 2 ^ 149"
    by (rule power_split)
  then have "float_ulp ?x = 2 ^ (floorlog 2 ?Y - 24 - 149) * (2 ^ 149 * float_min)"
    by (simp only: float_ulp_def mult.assoc)
  then have "float_ulp ?x = of_int (2 ^ (floorlog 2 ?Y - 24 - 149))"
    by (simp only: float_min_149) simp
  then have "to_float ?x = of_int (round_half_even (?x / float_ulp ?x) * 2 ^ (floorlog 2 ?Y - 24 - 149))"
    by (simp add: to_float_def)
  then show ?thesis by blast
qed

lemma to_float_zero: "to_float 0 = 0"
  using to_float_small_int [of 0] by simp

lemma shrunk_count_one: "shrunk_count n 1 = Some 0"
proof -
  let ?c = "to_float (real (unat n))"
  obtain k where "to_float (of_int (int (unat n))) = of_int k"
    using to_float_of_int by blast
  then have k: "?c = of_int k" by (simp del: of_nat_unat)
  have "to_float (?c * 1) = ?c" by (simp only: mult_1_right to_float_idem)
  then have "?c - of_int \<lceil>to_float (?c * 1)\<rceil> = 0" by (simp only: k ceiling_of_int)
  then have "to_float (?c - of_int \<lceil>to_float (?c * 1)\<rceil>) = 0" by (simp only: to_float_zero)
  then show ?thesis unfolding shrunk_count_def Let_def by (simp only:) simp
qed

lemma shrunk_count_exact:
  assumes n: "unat n < 2 ^ 24"
    and p: "to_float (real (unat n) * ratio) = real (unat n) * ratio"
    and r: "0 \<le> ratio" "ratio \<le> 1"
  shows "shrunk_count n ratio = Some (of_int (int (unat n) - \<lceil>real (unat n) * ratio\<rceil>))"
proof -
  let ?n = "real (unat n)"
  let ?d = "int (unat n) - \<lceil>?n * ratio\<rceil>"
  have "\<bar>int (unat n)\<bar> < 2 ^ 24" using n by (simp del: of_nat_unat)
  then have "to_float (of_int (int (unat n))) = of_int (int (unat n))"
    by (rule to_float_small_int)
  then have c: "to_float ?n = ?n" by (simp del: of_nat_unat)
  have n0: "0 \<le> ?n" by (simp del: of_nat_unat)
  have "0 \<le> ?n * ratio" using n0 r(1) by (rule mult_nonneg_nonneg)
  then have k0: "0 \<le> \<lceil>?n * ratio\<rceil>" by (simp del: of_nat_unat)
  have "?n * ratio \<le> ?n * 1" using r(2) n0 by (rule mult_left_mono)
  then have "?n * ratio \<le> of_int (int (unat n))" by (simp del: of_nat_unat)
  then have k1: "\<lceil>?n * ratio\<rceil> \<le> int (unat n)" by (simp only: ceiling_le_iff)
  have d0: "0 \<le> ?d" using k1 by simp
  have "int (unat n) < 2 ^ 24" using n by (simp del: of_nat_unat)
  then have d1: "?d < 2 ^ 24" using k0 by linarith
  have "\<bar>?d\<bar> < 2 ^ 24" using d0 d1 by simp
  then have "to_float (of_int ?d) = of_int ?d" by (rule to_float_small_int)
  then have v: "to_float (?n - of_int \<lceil>?n * ratio\<rceil>) = of_int ?d"
    by (simp del: of_nat_unat)
  have a: "- 1 < (of_int ?d :: real)" using d0 by (simp del: of_nat_unat)
  have "?d < 2 ^ 32" using d1 by simp
  then have b: "(of_int ?d :: real) < 2 ^ 32" by (simp only: of_int_less_numeral_power_cancel_iff)
  have e: "(of_nat (nat \<lfloor>(of_int ?d :: real)\<rfloor>) :: u32) = of_int ?d"
    using d0 by (simp only: floor_of_int) simp
  show ?thesis unfolding shrunk_count_def Let_def c p v using a b e by (simp only: if_True simp_thms)
qed

lemma float_2_31: "of_int 1 * 2 ^ 180 * float_min = 2 ^ 31"
  by (simp add: float_min_def)

lemma shrunk_count_total:
  assumes n: "unat n < 2 ^ 31" and r: "0 \<le> ratio" "ratio \<le> 1"
  shows "\<exists>k. shrunk_count n ratio = Some k"
proof -
  let ?n = "real (unat n)"
  let ?c = "to_float ?n"
  let ?p = "to_float (?c * ratio)"
  let ?v = "to_float (?c - of_int \<lceil>?p\<rceil>)"
  have n0: "0 \<le> ?n" by (simp del: of_nat_unat)
  then have c0: "0 \<le> ?c" by (rule to_float_nonneg)
  have "?n \<le> 2 ^ 31" using n by (simp del: of_nat_unat)
  then have "?n \<le> of_int 1 * 2 ^ 180 * float_min" "\<bar>?n\<bar> \<le> \<bar>of_int 1 * 2 ^ 180 * float_min\<bar>"
    using n0 by (simp_all only: float_2_31)
  then have "?c \<le> of_int 1 * 2 ^ 180 * float_min"
    by (rule to_float_le) simp
  then have c1: "?c \<le> 2 ^ 31" by (simp only: float_2_31)
  obtain j where "to_float (of_int (int (unat n))) = of_int j"
    using to_float_of_int by blast
  then have j: "?c = of_int j" by (simp del: of_nat_unat)
  have cr0: "0 \<le> ?c * ratio" using c0 r(1) by (rule mult_nonneg_nonneg)
  have "?c * ratio \<le> ?c * 1" using r(2) c0 by (rule mult_left_mono)
  then have cr1: "?c * ratio \<le> ?c" by simp
  have p0: "0 \<le> ?p" using cr0 by (rule to_float_nonneg)
  have p1: "?p \<le> ?c" using cr0 cr1 by (rule to_float_below)
  have k0: "0 \<le> \<lceil>?p\<rceil>" using p0 by simp
  have "?p \<le> of_int j" using p1 by (simp only: j)
  then have "\<lceil>?p\<rceil> \<le> j" by (simp only: ceiling_le_iff)
  then have "(of_int \<lceil>?p\<rceil> :: real) \<le> of_int j" by (simp only: of_int_le_iff)
  then have d0: "0 \<le> ?c - of_int \<lceil>?p\<rceil>" by (simp only: j diff_ge_0_iff_ge)
  have d1: "?c - of_int \<lceil>?p\<rceil> \<le> ?c" using k0 by simp
  have v0: "0 \<le> ?v" using d0 by (rule to_float_nonneg)
  have "?v \<le> ?c" using d0 d1 by (rule to_float_below)
  then have "?v \<le> 2 ^ 31" using c1 by simp
  then have v1: "?v < 2 ^ 32" by simp
  have "- 1 < ?v" using v0 by simp
  then have "shrunk_count n ratio = Some (of_nat (nat \<lfloor>?v\<rfloor>))"
    unfolding shrunk_count_def Let_def using v1 by (simp only: if_True simp_thms)
  then show ?thesis by blast
qed

lemma shrunk_count_4: "shrunk_count 4 (1 / 4) = Some 3"
proof -
  have "to_float (of_int 1) = of_int 1" by (rule to_float_small_int) simp
  then have "to_float (real (unat (4 :: u32)) * (1 / 4)) = real (unat (4 :: u32)) * (1 / 4)"
    by simp
  then have "shrunk_count 4 (1 / 4) =
    Some (of_int (int (unat (4 :: u32)) - \<lceil>real (unat (4 :: u32)) * (1 / 4)\<rceil>))"
    by (intro shrunk_count_exact) simp_all
  then show ?thesis by simp
qed

lemma float_9_4: "of_int 9 * 2 ^ 147 * float_min = 9 / 4"
  by (simp add: float_min_def)

lemma shrunk_count_9: "shrunk_count 9 (1 / 4) = Some 6"
proof -
  have "to_float (of_int 9 * 2 ^ 147 * float_min) = of_int 9 * 2 ^ 147 * float_min"
    by (rule to_float_exact) simp
  then have "to_float (9 / 4) = 9 / 4" by (simp only: float_9_4)
  then have "to_float (real (unat (9 :: u32)) * (1 / 4)) = real (unat (9 :: u32)) * (1 / 4)"
    by simp
  then have "shrunk_count 9 (1 / 4) =
    Some (of_int (int (unat (9 :: u32)) - \<lceil>real (unat (9 :: u32)) * (1 / 4)\<rceil>))"
    by (intro shrunk_count_exact) simp_all
  then show ?thesis by simp
qed

text \<open>Three strands at the \<open>float\<close> nearest to 1/3, which is above 1/3: the
  product \<open>1 + 2^-25\<close> rounds to 1, and two strands are to be kept (the product on the
  reals has ceiling 2, which would leave one).\<close>

lemma to_float_third: "to_float (1 / 3) = 11184811 / 33554432"
proof -
  have "nat \<lfloor>\<bar>1 / 3 :: real\<bar> / float_min\<rfloor> = 2 ^ 149 div 3"
    by (simp add: float_min_def)
  moreover have "floorlog 2 (2 ^ 149 div 3) = 148" by (rule floorlog_2_eq) simp_all
  ultimately have u: "float_ulp (1 / 3) = 1 / 2 ^ 25"
    by (simp add: float_ulp_def float_min_def)
  show ?thesis
    unfolding to_float_def u by (simp add: round_half_even_def)
qed

lemma to_float_three_thirds: "to_float (3 * (11184811 / 33554432)) = 1"
proof -
  have "nat \<lfloor>\<bar>3 * (11184811 / 33554432) :: real\<bar> / float_min\<rfloor> = 33554433 * 2 ^ 124"
    by (simp add: float_min_def)
  moreover have "floorlog 2 (33554433 * 2 ^ 124) = 150" by (rule floorlog_2_eq) simp_all
  ultimately have u: "float_ulp (3 * (11184811 / 33554432)) = 1 / 2 ^ 23"
    by (simp add: float_ulp_def float_min_def)
  show ?thesis
    unfolding to_float_def u by (simp add: round_half_even_def)
qed

lemma shrunk_count_three_thirds: "shrunk_count 3 (to_float (1 / 3)) = Some 2"
proof -
  have c: "to_float (real (unat (3 :: u32))) = 3"
    using to_float_small_int [of 3] by simp
  have v: "to_float (3 - of_int \<lceil>1 :: real\<rceil>) = 2"
    using to_float_small_int [of 2] by simp
  show ?thesis
    unfolding shrunk_count_def Let_def c to_float_third to_float_three_thirds v by simp
qed

section \<open>Strand reduction\<close>

subsection \<open>Swap-to-back removal and the offset table\<close>

lemma mset_swap_with_back:
  assumes "i < length xs"
  shows "mset (swap_with_back xs i) = mset xs"
proof -
  have n: "length xs - 1 < length xs" using assms by simp
  have "xs \<noteq> []" using assms by auto
  then have "last xs = xs ! (length xs - 1)" by (simp add: last_conv_nth)
  then show ?thesis using mset_swap [OF n assms] by (simp add: swap_with_back_def)
qed

lemma last_swap_with_back:
  assumes "i < length xs"
  shows "last (swap_with_back xs i) = xs ! i"
proof -
  have "swap_with_back xs i \<noteq> []" using assms by (auto simp: swap_with_back_def)
  then show ?thesis using assms by (simp add: last_conv_nth swap_with_back_def)
qed

lemma mset_pop_swap:
  assumes "i < length xs"
  shows "mset (pop_back (swap_with_back xs i)) + {#xs ! i#} = mset xs"
proof -
  let ?ys = "swap_with_back xs i"
  have ne: "?ys \<noteq> []" using assms by (auto simp: swap_with_back_def)
  then have "mset (butlast ?ys) + {#last ?ys#} = mset ?ys"
    by (metis append_butlast_last_id mset.simps(1) mset.simps(2) mset_append union_mset_add_mset_right add.right_neutral)
  then show ?thesis using assms by (simp add: pop_back_def last_swap_with_back mset_swap_with_back)
qed

lemma length_pop_swap: "length (pop_back (swap_with_back xs i)) = length xs - 1"
  by (simp add: pop_back_def swap_with_back_def)

lemma map_pop_swap:
  assumes "i < length xs"
  shows "map f (pop_back (swap_with_back xs i)) = pop_back (swap_with_back (map f xs) i)"
proof -
  have "xs \<noteq> []" using assms by auto
  then show ?thesis using assms
    by (simp add: pop_back_def swap_with_back_def map_butlast map_update last_map)
qed

lemma distinct_pop_swap:
  assumes "i < length ws" "distinct (ws @ sel)"
  shows "distinct (pop_back (swap_with_back ws i) @ sel @ [ws ! i])"
    and "set (pop_back (swap_with_back ws i) @ sel @ [ws ! i]) = set (ws @ sel)"
proof -
  have m: "mset (pop_back (swap_with_back ws i) @ sel @ [ws ! i]) = mset (ws @ sel)"
    using mset_pop_swap [OF assms(1)] by (simp add: ac_simps)
  show "distinct (pop_back (swap_with_back ws i) @ sel @ [ws ! i])"
    using m assms(2) by (metis mset_eq_imp_distinct_iff)
  show "set (pop_back (swap_with_back ws i) @ sel @ [ws ! i]) = set (ws @ sel)"
    using m by (rule mset_eq_setD)
qed

lemma prefix_offsets_sums:
  "prefix_offsets p ks = map (\<lambda>s. p + sum_list (map Suc (take s ks))) [0 ..< length ks]"
proof (induction ks arbitrary: p)
  case Nil
  then show ?case by simp
next
  case (Cons k ks)
  have "[0 ..< length (k # ks)] = 0 # map Suc [0 ..< length ks]"
    by (simp add: upt_conv_Cons map_Suc_upt del: upt_Suc)
  then show ?case using Cons.IH [of "p + k + 1"] by (simp add: o_def del: upt_Suc)
qed


subsection \<open>The sampling loop keeps strands whole\<close>

lemma gathered_Nil: "gathered a xs [] []"
  by (simp add: gathered_def)

lemma gathered_step:
  assumes "gathered a xs sel out"
    and "copy_range (length xs \<noteq> 0) xs (strand_start a s) (strand_start a s + segment_counts a ! s + 1) out = Some out'"
  shows "gathered a xs (sel @ [s]) out'"
  using assms by (auto simp: gathered_def copy_range_def strand_slice_def split: if_splits)

lemma gathered_length:
  assumes "gathered a xs sel out"
  shows "length out = (if xs = [] then 0 else sum_list (map (\<lambda>s. segment_counts a ! s + 1) sel))"
proof -
  have "length (concat (map (strand_slice a xs) sel)) = sum_list (map (\<lambda>s. segment_counts a ! s + 1) sel)"
    if "xs \<noteq> []" "\<forall>s \<in> set sel. strand_start a s + segment_counts a ! s + 1 \<le> length xs"
    using that(2)
    by (induction sel) (auto simp: strand_slice_def)
  moreover have "concat (map (strand_slice a []) sel) = []"
    by (induction sel) (auto simp: strand_slice_def)
  ultimately show ?thesis using assms by (auto simp: gathered_def)
qed

lemma reduce_body_cases:
  assumes "reduce_body st = Some st'"
  obtains i c segs' start rv rth rta rtr rc where
    "i = random_strand_index (fst (xorshift64 (seed (hair st)))) (length (strand_offset st))"
    "i < length (strand_offset st)"
    "start = strand_offset st ! i"
    "if segments (hair st) \<noteq> []
     then i < length (segments (hair st)) \<and> c = ucast (segments (hair st) ! i) \<and>
          segs' = pop_back (swap_with_back (segments (hair st)) i)
     else c = default_segment_count (file_header (hair st)) \<and> segs' = segments (hair st)"
    "copy_range (length (vertices (hair st)) \<noteq> 0) (vertices (hair st)) start (start + unat c + 1) (reduced_vertices st) = Some rv"
    "copy_range (length (thickness (hair st)) \<noteq> 0) (thickness (hair st)) start (start + unat c + 1) (reduced_thickness st) = Some rth"
    "copy_range (length (tangents (hair st)) \<noteq> 0) (tangents (hair st)) start (start + unat c + 1) (reduced_tangents st) = Some rta"
    "copy_range (length (transparency (hair st)) \<noteq> 0) (transparency (hair st)) start (start + unat c + 1) (reduced_transparency st) = Some rtr"
    "copy_range (length (color (hair st)) \<noteq> 0) (color (hair st)) start (start + unat c + 1) (reduced_color st) = Some rc"
    "st' = st\<lparr>hair := (hair st)\<lparr>seed := snd (xorshift64 (seed (hair st))), segments := segs'\<rparr>,
                                strand_offset := pop_back (swap_with_back (strand_offset st) i),
                                reduced_segments := reduced_segments st @ [ucast c],
                                reduced_vertices := rv,
                                reduced_thickness := rth,
                                reduced_tangents := rta,
                                reduced_transparency := rtr,
                                reduced_color := rc\<rparr>"
  using assms
  unfolding reduce_body_def copy_strand_def Let_def has_segments_def has_vertices_def has_thickness_def
    has_tangents_def has_transparency_def has_color_def get_default_segment_count_def elem_at_def
  by (auto split: prod.splits option.splits if_splits)


lemma segment_counts_nth_segments:
  "has_segments a \<Longrightarrow> s < length (segment_counts a) \<Longrightarrow> segment_counts a ! s = unat (segments a ! s)"
  by (simp add: segment_counts_def)

lemma segment_counts_nth_default:
  "\<not> has_segments a \<Longrightarrow> s < length (segment_counts a) \<Longrightarrow>
   segment_counts a ! s = unat (default_segment_count (file_header a))"
  by (simp add: segment_counts_def)

lemma ucast_u32_u16_of_nat: "(ucast (c :: u32) :: u16) = of_nat (unat c)"
  by simp

lemma ucast_u16_u32_u16: "(ucast (ucast (x :: u16) :: u32) :: u16) = x"
  by (simp add: ucast_up_ucast_id is_up)

lemma reduce_body_inv:
  assumes inv: "reduce_inv a st ws sel" and body: "reduce_body st = Some st'"
  shows "\<exists>i < length ws. reduce_inv a st' (pop_back (swap_with_back ws i)) (sel @ [ws ! i])
           \<and> strands_left st' = strands_left st"
proof -
  from body obtain i c segs' start rv rth rta rtr rc where
    i: "i < length (strand_offset st)"
    and start: "start = strand_offset st ! i"
    and segs: "if segments (hair st) \<noteq> []
     then i < length (segments (hair st)) \<and> c = ucast (segments (hair st) ! i) \<and>
          segs' = pop_back (swap_with_back (segments (hair st)) i)
     else c = default_segment_count (file_header (hair st)) \<and> segs' = segments (hair st)"
    and cv: "copy_range (length (vertices (hair st)) \<noteq> 0) (vertices (hair st)) start (start + unat c + 1) (reduced_vertices st) = Some rv"
    and cth: "copy_range (length (thickness (hair st)) \<noteq> 0) (thickness (hair st)) start (start + unat c + 1) (reduced_thickness st) = Some rth"
    and cta: "copy_range (length (tangents (hair st)) \<noteq> 0) (tangents (hair st)) start (start + unat c + 1) (reduced_tangents st) = Some rta"
    and ctr: "copy_range (length (transparency (hair st)) \<noteq> 0) (transparency (hair st)) start (start + unat c + 1) (reduced_transparency st) = Some rtr"
    and cc: "copy_range (length (color (hair st)) \<noteq> 0) (color (hair st)) start (start + unat c + 1) (reduced_color st) = Some rc"
    and st': "st' = st\<lparr>hair := (hair st)\<lparr>seed := snd (xorshift64 (seed (hair st))), segments := segs'\<rparr>,
                                strand_offset := pop_back (swap_with_back (strand_offset st) i),
                                reduced_segments := reduced_segments st @ [ucast c],
                                reduced_vertices := rv,
                                reduced_thickness := rth,
                                reduced_tangents := rta,
                                reduced_transparency := rtr,
                                reduced_color := rc\<rparr>"
    by (rule reduce_body_cases)
  let ?s = "ws ! i"
  let ?ws' = "pop_back (swap_with_back ws i)"
  have off: "strand_offset st = map (strand_start a) ws" using inv by (simp add: reduce_inv_def)
  have iw: "i < length ws" using i off by simp
  have sw: "?s \<in> set ws" using iw by simp
  have dist: "distinct (ws @ sel)" and sub: "set (ws @ sel) \<subseteq> {..< length (segment_counts a)}"
    using inv by (simp_all add: reduce_inv_def)
  have sn: "?s < length (segment_counts a)" using sw sub by auto
  have start': "start = strand_start a ?s" using start off iw by simp
  have hdr: "file_header (hair st) = file_header a" using inv by (simp add: reduce_inv_def)
  have sg: "segments (hair st) = (if has_segments a then map (\<lambda>s. segments a ! s) ws else [])"
    using inv by (simp add: reduce_inv_def)
  have c: "unat c = segment_counts a ! ?s"
    and c16: "(ucast c :: u16) = of_nat (segment_counts a ! ?s)"
    and segs': "segs' = (if has_segments a then map (\<lambda>s. segments a ! s) ?ws' else [])"
  proof -
    show "unat c = segment_counts a ! ?s"
    proof (cases "has_segments a")
      case True
      then have "c = ucast (segments a ! ?s)" using segs sg iw by (auto split: if_splits)
      then show ?thesis using True sn
        by (simp add: segment_counts_nth_segments unat_ucast_u16_u32)
    next
      case False
      then have "c = default_segment_count (file_header a)" using segs sg hdr by simp
      then show ?thesis using False sn by (simp add: segment_counts_nth_default)
    qed
    then show "(ucast c :: u16) = of_nat (segment_counts a ! ?s)"
      using ucast_u32_u16_of_nat [of c] by simp
    show "segs' = (if has_segments a then map (\<lambda>s. segments a ! s) ?ws' else [])"
    proof (cases "has_segments a")
      case True
      then have "segs' = pop_back (swap_with_back (map (\<lambda>s. segments a ! s) ws) i)"
        using segs sg iw by (auto split: if_splits)
      then show ?thesis using True iw by (simp add: map_pop_swap)
    next
      case False
      then show ?thesis using segs sg by simp
    qed
  qed
  have off': "pop_back (swap_with_back (strand_offset st) i) = map (strand_start a) ?ws'"
    using off iw by (simp add: map_pop_swap)
  have d': "distinct (?ws' @ sel @ [?s])" and s': "set (?ws' @ sel @ [?s]) = set (ws @ sel)"
    using distinct_pop_swap [OF iw dist] by simp_all
  have g: "gathered a xs sel out \<Longrightarrow>
           copy_range (length xs \<noteq> 0) xs start (start + unat c + 1) out = Some out' \<Longrightarrow>
           gathered a xs (sel @ [?s]) out'" for xs :: "'b list" and out out'
    using gathered_step [of a xs sel out ?s out'] by (simp add: start' c)
  have "reduce_inv a st' ?ws' (sel @ [?s])"
    unfolding reduce_inv_def st'
    using inv d' s' sub off' segs' c16 g [OF _ cv] g [OF _ cth] g [OF _ cta] g [OF _ ctr] g [OF _ cc]
    by (simp add: reduce_inv_def)
  moreover have "strands_left st' = strands_left st" by (simp add: st')
  ultimately show ?thesis using iw by blast
qed


lemma reduce_inv_strands_left [simp]:
  "reduce_inv a (st\<lparr>strands_left := k\<rparr>) ws sel = reduce_inv a st ws sel"
  by (simp add: reduce_inv_def)

lemma reduce_loop_inv:
  "reduce_loop st = Some st' \<Longrightarrow> reduce_inv a st ws sel \<Longrightarrow>
   \<exists>ws' sel'. reduce_inv a st' ws' sel' \<and>
     length sel' = length sel + min (length ws) (unat (strands_left st - 1))"
proof (induction st arbitrary: ws sel rule: reduce_loop.induct)
  case (1 st)
  have len: "length (strand_offset st) = length ws"
    using "1.prems"(2) by (simp add: reduce_inv_def)
  show ?case
  proof (cases "strands_left st - 1 \<noteq> 0 \<and> strand_offset st \<noteq> []")
    case True
    then obtain st1 where b: "reduce_body (st\<lparr>strands_left := strands_left st - 1\<rparr>) = Some st1"
      and l: "reduce_loop st1 = Some st'"
      using "1.prems"(1) by (subst (asm) reduce_loop.simps) (auto split: option.splits)
    have "reduce_inv a (st\<lparr>strands_left := strands_left st - 1\<rparr>) ws sel"
      using "1.prems"(2) by simp
    from reduce_body_inv [OF this b] obtain i where i: "i < length ws"
      and inv1: "reduce_inv a st1 (pop_back (swap_with_back ws i)) (sel @ [ws ! i])"
      and sl: "strands_left st1 = strands_left st - 1"
      by auto
    from "1.IH" [OF True b l inv1] obtain ws' sel' where inv': "reduce_inv a st' ws' sel'"
      and n: "length sel' = length (sel @ [ws ! i]) +
                min (length (pop_back (swap_with_back ws i))) (unat (strands_left st1 - 1))"
      by blast
    have nz: "strands_left st - 1 \<noteq> 0" using True by blast
    have "unat (strands_left st - 1 - 1) = unat (strands_left st - 1) - 1"
      using nz by (rule unat_minus_one)
    then have "unat (strands_left st1 - 1) = unat (strands_left st - 1) - 1"
      unfolding sl .
    moreover have "0 < unat (strands_left st - 1)" using nz by (rule unat_gt_0 [THEN iffD2])
    ultimately have "length sel' = length sel + min (length ws) (unat (strands_left st - 1))"
      using n i by (simp add: length_pop_swap)
    then show ?thesis using inv' by blast
  next
    case False
    then have "st' = st\<lparr>strands_left := strands_left st - 1\<rparr>"
      using "1.prems"(1) by (subst (asm) reduce_loop.simps) auto
    moreover have "min (length ws) (unat (strands_left st - 1)) = 0"
      using False len by auto
    ultimately show ?thesis using "1.prems"(2) by auto
  qed
qed

lemma length_le_sum_list_Suc: "length xs \<le> sum_list (map (\<lambda>s. f s + 1) xs)"
  by (induction xs) auto

lemma strand_start_replicate:
  "s \<le> n \<Longrightarrow> sum_list (map Suc (take s (replicate n d))) = s * Suc d"
  by (simp add: sum_list_replicate)

lemma strand_offsets_table:
  assumes "strand_offsets a = Some offs"
    and "has_segments a \<or> default_segment_count (file_header a) + 1 \<noteq> 0"
  shows "offs = map (strand_start a) [0 ..< length (segment_counts a)]"
    and "length (segment_counts a) = unat (get_strand_count a)"
    and "0 < unat (get_strand_count a)"
proof -
  have "offs = map (strand_start a) [0 ..< length (segment_counts a)] \<and>
        length (segment_counts a) = unat (get_strand_count a) \<and> 0 < unat (get_strand_count a)"
  proof (cases "has_segments a")
    case True
    then have s: "sum_list (map (\<lambda>s. unat s + 1) (segments a)) < 2 ^ 31"
      and o: "offs = prefix_offsets 0 (map unat (segments a))"
      using assms(1) by (auto simp: strand_offsets_def split: if_splits)
    have "length (segments a) < 2 ^ 31"
      using s length_le_sum_list_Suc [of "segments a" unat] by simp
    then have "length (segments a) < 2 ^ 32" by simp
    then have n: "unat (get_strand_count a) = length (segments a)"
      using True by (simp add: get_strand_count_def has_segments_def unat_of_nat_u32)
    have "offs = map (strand_start a) [0 ..< length (segment_counts a)]"
      using True o by (simp add: prefix_offsets_sums segment_counts_def strand_start_def)
    then show ?thesis using True n by (simp add: segment_counts_def has_segments_def)
  next
    case False
    then have n0: "unat (get_strand_count a) \<noteq> 0"
      and o: "offs = map (\<lambda>i. i * unat (get_default_segment_count a + 1))
                   [0 ..< unat (get_strand_count a)]"
      using assms(1) by (auto simp: strand_offsets_def split: if_splits)
    have d: "unat (get_default_segment_count a + 1) = Suc (unat (default_segment_count (file_header a)))"
      using assms(2) False unatSuc [of "default_segment_count (file_header a)"]
      by (simp add: get_default_segment_count_def add.commute)
    have n: "length (segment_counts a) = unat (get_strand_count a)"
      using False by (simp add: segment_counts_def get_strand_count_def has_segments_def)
    have "offs = map (strand_start a) [0 ..< length (segment_counts a)]"
      unfolding o n d using False
      by (intro nth_equalityI)
         (simp_all add: strand_start_def segment_counts_def get_strand_count_def has_segments_def
            sum_list_replicate)
    then show ?thesis using n n0 by simp
  qed
  then show "offs = map (strand_start a) [0 ..< length (segment_counts a)]"
    and "length (segment_counts a) = unat (get_strand_count a)"
    and "0 < unat (get_strand_count a)" by simp_all
qed

lemma generate_indices_fields:
  assumes "generate_indices a = Some a'"
  shows "a' = a\<lparr>indices := indices a'\<rparr>"
  using assms by (auto simp: generate_indices_def split: option.splits)


lemma to_double_zero: "to_double 0 = 0"
  by (simp add: to_double_def round_to_bits_def floorlog_def)

lemma random_strand_index_zero: "random_strand_index 0 n = 0"
  by (simp add: random_strand_index_def to_double_zero)

lemma reduce_structure:
  assumes red: "reduce ratio a = Some a'"
    and cond: "has_segments a \<or> default_segment_count (file_header a) + 1 \<noteq> 0"
  obtains left sel where
    "shrunk_count (get_strand_count a) ratio = Some left"
    "0 < unat (get_strand_count a)"
    "distinct sel"
    "set sel \<subseteq> {..< unat (get_strand_count a)}"
    "length sel = min (unat (get_strand_count a)) (unat (left - 1))"
    "segments a' = map (\<lambda>s. of_nat (segment_counts a ! s)) sel"
    "gathered a (vertices a) sel (vertices a')"
    "gathered a (thickness a) sel (thickness a')"
    "gathered a (tangents a) sel (tangents a')"
    "gathered a (transparency a) sel (transparency a')"
    "gathered a (color a) sel (color a')"
    "file_header a' = file_header a"
proof -
  obtain left where left: "shrunk_count (get_strand_count a) ratio = Some left"
    using red by (cases "shrunk_count (get_strand_count a) ratio") (simp_all add: reduce_def)
  obtain vc where vc: "shrunk_count (get_vertex_count a) ratio = Some vc"
    using red left by (cases "shrunk_count (get_vertex_count a) ratio") (simp_all add: reduce_def)
  obtain offs where offs: "strand_offsets a = Some offs"
    using red left vc by (cases "strand_offsets a") (simp_all add: reduce_def)
  let ?st0 = "\<lparr>hair = a, strands_left = left, strand_offset = offs,
                        reduced_segments = [], reduced_vertices = [], reduced_thickness = [],
                        reduced_tangents = [], reduced_transparency = [], reduced_color = []\<rparr>"
  obtain st where loop: "reduce_loop ?st0 = Some st"
    using red left vc offs by (cases "reduce_loop ?st0") (simp_all add: reduce_def)
  obtain a1 where gi: "generate_indices ((hair st)\<lparr>segments := reduced_segments st, vertices := reduced_vertices st\<rparr>) = Some a1"
    using red left vc offs loop
    by (cases "generate_indices ((hair st)\<lparr>segments := reduced_segments st, vertices := reduced_vertices st\<rparr>)")
       (simp_all add: reduce_def)
  have a': "a' = a1\<lparr>thickness := reduced_thickness st,
                   tangents := reduced_tangents st,
                   transparency := reduced_transparency st,
                   color := reduced_color st\<rparr>"
    using red left vc offs loop gi by (simp add: reduce_def)
  let ?n = "length (segment_counts a)"
  note tab = strand_offsets_table [OF offs cond]
  have segs: "(if has_segments a then map (\<lambda>s. segments a ! s) [0 ..< ?n] else []) = segments a"
    by (simp add: segment_counts_def has_segments_def map_nth)
  have "reduce_inv a ?st0 [0 ..< ?n] []"
    unfolding reduce_inv_def by (auto simp: gathered_Nil tab(1) segs)
  from reduce_loop_inv [OF loop this] obtain ws' sel where
    inv: "reduce_inv a st ws' sel"
    and len: "length sel = min ?n (unat (left - 1))"
    by auto
  have a1: "a1 = (hair st)\<lparr>segments := reduced_segments st, vertices := reduced_vertices st,
                   indices := indices a1\<rparr>"
    using generate_indices_fields [OF gi] by simp
  have "distinct sel" "set sel \<subseteq> {..< unat (get_strand_count a)}"
    using inv tab(2) by (auto simp: reduce_inv_def)
  moreover have "length sel = min (unat (get_strand_count a)) (unat (left - 1))"
    using len tab(2) by simp
  moreover have "segments a' = map (\<lambda>s. of_nat (segment_counts a ! s)) sel"
    using inv by (subst a', subst a1) (simp add: reduce_inv_def)
  moreover have "gathered a (vertices a) sel (vertices a')"
    using inv by (subst a', subst a1) (simp add: reduce_inv_def)
  moreover have "gathered a (thickness a) sel (thickness a')"
    using inv by (subst a') (simp add: reduce_inv_def)
  moreover have "gathered a (tangents a) sel (tangents a')"
    using inv by (subst a') (simp add: reduce_inv_def)
  moreover have "gathered a (transparency a) sel (transparency a')"
    using inv by (subst a') (simp add: reduce_inv_def)
  moreover have "gathered a (color a) sel (color a')"
    using inv by (subst a') (simp add: reduce_inv_def)
  moreover have "file_header a' = file_header a"
    using inv by (subst a', subst a1) (simp add: reduce_inv_def)
  ultimately show ?thesis using that left tab(3) by blast
qed


lemma gathered_concat: "gathered a xs sel out \<Longrightarrow> out = concat (map (strand_slice a xs) sel)"
  by (simp add: gathered_def)

lemma gathered_present_length:
  "gathered a xs sel out \<Longrightarrow> length xs \<noteq> 0 \<Longrightarrow>
   length out = sum_list (map (\<lambda>s. segment_counts a ! s + 1) sel)"
  using gathered_length [of a xs sel out] by simp

lemma kept_segments_sum:
  assumes "has_segments a" "set sel \<subseteq> {..< length (segment_counts a)}"
  shows "sum_list (map (\<lambda>x. unat x + 1) (map (\<lambda>s. of_nat (segment_counts a ! s) :: u16) sel))
         = sum_list (map (\<lambda>s. segment_counts a ! s + 1) sel)"
proof -
  have "unat (of_nat (segment_counts a ! s) :: u16) = segment_counts a ! s" if "s \<in> set sel" for s
  proof -
    have "s < length (segment_counts a)" using that assms(2) by auto
    then have "segment_counts a ! s = unat (segments a ! s)"
      using assms(1) by (simp add: segment_counts_nth_segments)
    then show ?thesis by simp
  qed
  then show ?thesis by (simp add: o_def cong: map_cong)
qed

text \<open>
  Whenever \<open>reduce\<close> runs to completion, its output is assembled from whole
  strands of the input: there is a list \<open>sel\<close> of distinct strand numbers (the surviving
  strands, in their new order) such that every attribute array of the output is the
  concatenation of the input array's slices for those strands, each slice contiguous and
  in the input's order. An array that was present therefore has as many entries as the
  sum of \<open>segment count + 1\<close> over the surviving strands, and with a segments array
  that sum is the one over the output's own segments.
\<close>

lemma reduce_keeps_strands_whole:
  assumes "reduce ratio a = Some a'"
    and "has_segments a \<or> default_segment_count (file_header a) + 1 \<noteq> 0"
  shows "\<exists>sel. distinct sel \<and> set sel \<subseteq> {..< unat (get_strand_count a)} \<and>
           segments a' = map (\<lambda>s. of_nat (segment_counts a ! s)) sel \<and>
           vertices a' = concat (map (strand_slice a (vertices a)) sel) \<and>
           thickness a' = concat (map (strand_slice a (thickness a)) sel) \<and>
           tangents a' = concat (map (strand_slice a (tangents a)) sel) \<and>
           transparency a' = concat (map (strand_slice a (transparency a)) sel) \<and>
           color a' = concat (map (strand_slice a (color a)) sel) \<and>
           (has_vertices a \<longrightarrow>
              length (vertices a') = sum_list (map (\<lambda>s. segment_counts a ! s + 1) sel)) \<and>
           (has_thickness a \<longrightarrow>
              length (thickness a') = sum_list (map (\<lambda>s. segment_counts a ! s + 1) sel)) \<and>
           (has_tangents a \<longrightarrow>
              length (tangents a') = sum_list (map (\<lambda>s. segment_counts a ! s + 1) sel)) \<and>
           (has_transparency a \<longrightarrow>
              length (transparency a') = sum_list (map (\<lambda>s. segment_counts a ! s + 1) sel)) \<and>
           (has_color a \<longrightarrow>
              length (color a') = sum_list (map (\<lambda>s. segment_counts a ! s + 1) sel)) \<and>
           (has_segments a \<longrightarrow>
              sum_list (map (\<lambda>x. unat x + 1) (segments a'))
                = sum_list (map (\<lambda>s. segment_counts a ! s + 1) sel))"
proof -
  from assms obtain left sel where
    d: "distinct sel"
    and sub: "set sel \<subseteq> {..< unat (get_strand_count a)}"
    and sg: "segments a' = map (\<lambda>s. of_nat (segment_counts a ! s)) sel"
    and gv: "gathered a (vertices a) sel (vertices a')"
    and gth: "gathered a (thickness a) sel (thickness a')"
    and gta: "gathered a (tangents a) sel (tangents a')"
    and gtr: "gathered a (transparency a) sel (transparency a')"
    and gc: "gathered a (color a) sel (color a')"
    by (rule reduce_structure)
  have n: "has_segments a \<Longrightarrow> length (segment_counts a) = unat (get_strand_count a)"
  proof -
    assume h: "has_segments a"
    obtain offs where "strand_offsets a = Some offs"
      using assms(1) by (auto simp: reduce_def split: option.splits)
    then show ?thesis using assms(2) by (rule strand_offsets_table(2))
  qed
  have "has_segments a \<longrightarrow>
          sum_list (map (\<lambda>x. unat x + 1) (segments a'))
            = sum_list (map (\<lambda>s. segment_counts a ! s + 1) sel)"
    unfolding sg using kept_segments_sum [of a sel] sub n by auto
  then show ?thesis
    using d sub sg gathered_concat [OF gv] gathered_concat [OF gth] gathered_concat [OF gta]
      gathered_concat [OF gtr] gathered_concat [OF gc]
      gathered_present_length [OF gv] gathered_present_length [OF gth]
      gathered_present_length [OF gta] gathered_present_length [OF gtr]
      gathered_present_length [OF gc]
    unfolding has_vertices_def has_thickness_def has_tangents_def has_transparency_def
      has_color_def
    by (intro exI [of _ sel]) blast
qed


subsection \<open>Evaluation on the fixture, strand counts and the zero seed\<close>

lemmas reduce_eval_simps =
  reduce_def example_style_def get_strand_count_def get_vertex_count_def
  shrunk_count_4 shrunk_count_9 shrunk_count_one strand_offsets_def has_segments_def
  reduce_loop.simps reduce_body_def copy_strand_def xorshift64_zero random_strand_index_zero elem_at_def
  pop_back_def swap_with_back_def copy_range_def has_vertices_def has_thickness_def
  has_tangents_def has_transparency_def has_color_def
  generate_indices_def index_strand_def strand_segment_count_def upt_conv_Cons

lemma reduce_four_strands_quarter: "reduce (1 / 4) four_strands = Some four_strands_quarter"
  by (simp add: four_strands_def four_strands_quarter_def reduce_eval_simps)

lemma shuffle_four_strands: "shuffle four_strands = Some four_strands_shuffled"
  by (simp add: shuffle_def four_strands_def four_strands_shuffled_def reduce_eval_simps)


text \<open>The four-strand fixture reduced by a quarter: strands 0 and 3 survive.\<close>

lemma reduce_keeps_strands_whole_four_strands:
  "\<exists>sel. distinct sel \<and> set sel \<subseteq> {..< unat (get_strand_count four_strands)} \<and>
           segments four_strands_quarter = map (\<lambda>s. of_nat (segment_counts four_strands ! s)) sel \<and>
           vertices four_strands_quarter = concat (map (strand_slice four_strands (vertices four_strands)) sel) \<and>
           length (vertices four_strands_quarter) = sum_list (map (\<lambda>x. unat x + 1) (segments four_strands_quarter))"
proof -
  have c: "has_segments four_strands \<or> default_segment_count (file_header four_strands) + 1 \<noteq> 0"
    by (simp add: four_strands_def example_style_def has_segments_def)
  have hs: "has_segments four_strands" "has_vertices four_strands"
    by (simp_all add: four_strands_def example_style_def has_segments_def has_vertices_def)
  from reduce_keeps_strands_whole [OF reduce_four_strands_quarter c] hs
  show ?thesis by auto
qed

lemma unat_minus_one_u32: "unat (0 - 1 :: u32) = 2 ^ 32 - 1"
  by (simp add: unsigned_minus_1_eq_mask mask_eq_exp_minus_1)

lemma unat_less_u32: "unat (n :: u32) < 2 ^ 32"
  using unsigned_less [of n] by simp

lemma full_selection:
  assumes "distinct sel" "set sel \<subseteq> {..< n}" "length sel = n"
  shows "set sel = {..< n}"
proof -
  have "card (set sel) = n" using assms(1,3) by (simp add: distinct_card)
  then show ?thesis using assms(2) by (simp add: card_subset_eq)
qed

text \<open>
  Claim C5, as the code has it. \<open>shuffle\<close> is \<open>reduce(1.0)\<close>: the target count is 0,
  the decrement before the test wraps it to \<open>2 ^ 32 - 1\<close>, and the loop stops only when
  the working set is empty. Every strand of the input is emitted exactly once: the output
  has as many strands as the input, and its arrays are the input's strands in a new order.
\<close>

theorem shuffle_keeps_every_strand:
  assumes "shuffle a = Some a'"
    and "has_segments a \<or> default_segment_count (file_header a) + 1 \<noteq> 0"
  shows "length (segments a') = unat (get_strand_count a) \<and>
         get_strand_count a' = get_strand_count a \<and>
         (\<exists>sel. distinct sel \<and> set sel = {..< unat (get_strand_count a)} \<and>
            segments a' = map (\<lambda>s. of_nat (segment_counts a ! s)) sel \<and>
            vertices a' = concat (map (strand_slice a (vertices a)) sel) \<and>
            thickness a' = concat (map (strand_slice a (thickness a)) sel) \<and>
            tangents a' = concat (map (strand_slice a (tangents a)) sel) \<and>
            transparency a' = concat (map (strand_slice a (transparency a)) sel) \<and>
            color a' = concat (map (strand_slice a (color a)) sel))"
proof -
  let ?n = "unat (get_strand_count a)"
  have red: "reduce 1 a = Some a'" using assms(1) by (simp add: shuffle_def)
  from red assms(2) obtain left sel where
    left: "shrunk_count (get_strand_count a) 1 = Some left"
    and pos: "0 < ?n"
    and d: "distinct sel"
    and sub: "set sel \<subseteq> {..< ?n}"
    and len: "length sel = min ?n (unat (left - 1))"
    and sg: "segments a' = map (\<lambda>s. of_nat (segment_counts a ! s)) sel"
    and gv: "gathered a (vertices a) sel (vertices a')"
    and gth: "gathered a (thickness a) sel (thickness a')"
    and gta: "gathered a (tangents a) sel (tangents a')"
    and gtr: "gathered a (transparency a) sel (transparency a')"
    and gc: "gathered a (color a) sel (color a')"
    by (rule reduce_structure)
  have "left = 0" using left by (simp add: shrunk_count_one)
  then have "unat (left - 1) = 2 ^ 32 - 1" by (simp only: unat_minus_one_u32)
  then have len': "length sel = ?n"
    using len unat_less_u32 [of "get_strand_count a"] by simp
  have all: "set sel = {..< ?n}" using d sub len' by (rule full_selection)
  have l: "length (segments a') = ?n" using sg len' by simp
  then have "get_strand_count a' = of_nat ?n"
    using pos by (simp add: get_strand_count_def)
  then have g: "get_strand_count a' = get_strand_count a" by simp
  show ?thesis
    using l g d all sg gathered_concat [OF gv] gathered_concat [OF gth] gathered_concat [OF gta]
      gathered_concat [OF gtr] gathered_concat [OF gc]
    by blast
qed

theorem shuffle_keeps_every_strand_witness:
  "length (segments four_strands_shuffled) = unat (get_strand_count four_strands) \<and>
   get_strand_count four_strands_shuffled = get_strand_count four_strands"
proof -
  have c: "has_segments four_strands \<or> default_segment_count (file_header four_strands) + 1 \<noteq> 0"
    by (simp add: four_strands_def example_style_def has_segments_def)
  from shuffle_keeps_every_strand [OF shuffle_four_strands c] show ?thesis by blast
qed

text \<open>
  Claim C5 as stated (one strand fewer in the output) fails on the four-strand fixture:
  its shuffle has four strands.
\<close>

theorem shuffle_loses_no_strand:
  "\<exists>a'. shuffle four_strands = Some a' \<and> length (segments four_strands) = 4
        \<and> length (segments a') = 4"
proof -
  have "length (segments four_strands) = 4"
    by (simp add: four_strands_def example_style_def)
  moreover have "length (segments four_strands_shuffled) = 4"
    by (simp add: four_strands_shuffled_def example_style_def)
  ultimately show ?thesis using shuffle_four_strands by blast
qed


lemma unat_of_int_u32: "0 \<le> k \<Longrightarrow> k < 2 ^ 32 \<Longrightarrow> unat (of_int k :: u32) = nat k"
  by (simp add: unsigned_of_int take_bit_int_eq_self)

lemma reduce_strand_count_left:
  assumes red: "reduce ratio a = Some a'"
    and cond: "has_segments a \<or> default_segment_count (file_header a) + 1 \<noteq> 0"
    and left: "shrunk_count (get_strand_count a) ratio = Some left"
  shows "length (segments a') = min (unat (get_strand_count a)) (unat (left - 1))"
proof -
  from red cond obtain left' sel where
    "shrunk_count (get_strand_count a) ratio = Some left'"
    and len: "length sel = min (unat (get_strand_count a)) (unat (left' - 1))"
    and sg: "segments a' = map (\<lambda>s. of_nat (segment_counts a ! s)) sel"
    by (rule reduce_structure)
  then have "left' = left" using left by simp
  then show ?thesis using len sg by simp
qed

lemma reduce_strand_count:
  assumes red: "reduce ratio a = Some a'"
    and cond: "has_segments a \<or> default_segment_count (file_header a) + 1 \<noteq> 0"
    and small: "unat (get_strand_count a) < 2 ^ 24"
    and exact: "to_float (real (unat (get_strand_count a)) * ratio)
                  = real (unat (get_strand_count a)) * ratio"
    and r: "0 < ratio" "ratio < 1"
  shows "int (length (segments a')) =
           (if int (unat (get_strand_count a)) - \<lceil>real (unat (get_strand_count a)) * ratio\<rceil> = 0
            then int (unat (get_strand_count a))
            else int (unat (get_strand_count a)) - \<lceil>real (unat (get_strand_count a)) * ratio\<rceil> - 1)"
proof -
  let ?n = "unat (get_strand_count a)"
  let ?v = "int ?n - \<lceil>real ?n * ratio\<rceil>"
  from red cond obtain left sel where
    left: "shrunk_count (get_strand_count a) ratio = Some left"
    and pos: "0 < ?n"
    and len: "length sel = min ?n (unat (left - 1))"
    and sg: "segments a' = map (\<lambda>s. of_nat (segment_counts a ! s)) sel"
    by (rule reduce_structure)
  have "shrunk_count (get_strand_count a) ratio = Some (of_int ?v)"
    using small exact r by (intro shrunk_count_exact) simp_all
  then have v3: "left = of_int ?v" using left by simp
  have n0: "0 \<le> real ?n" by (simp del: of_nat_unat)
  have "real ?n * ratio \<le> real ?n * 1" using r(2) n0 by (intro mult_left_mono) simp_all
  then have "real ?n * ratio \<le> of_int (int ?n)" by (simp del: of_nat_unat)
  then have "\<lceil>real ?n * ratio\<rceil> \<le> int ?n" by (simp only: ceiling_le_iff)
  then have v0: "0 \<le> ?v" by simp
  have "0 < real ?n" using pos by (simp del: of_nat_unat)
  then have "0 < real ?n * ratio" using r(1) by (rule mult_pos_pos)
  then have c1: "1 \<le> \<lceil>real ?n * ratio\<rceil>" by linarith
  have "int ?n < 2 ^ 32" using unat_less_u32 [of "get_strand_count a"] by (simp del: of_nat_unat)
  then have v2: "?v < 2 ^ 32" using c1 by linarith
  note v = v0 v2 v3
  show ?thesis
  proof (cases "?v = 0")
    case True
    then have "left = 0" using v(3) by simp
    then have "unat (left - 1) = 2 ^ 32 - 1" by (simp only: unat_minus_one_u32)
    then have "length sel = ?n" using len unat_less_u32 [of "get_strand_count a"] by simp
    then show ?thesis using True sg by simp
  next
    case False
    then have v1: "1 \<le> ?v" using v(1) by linarith
    have "left - 1 = of_int (?v - 1)" using v(3) by simp
    moreover have "unat (of_int (?v - 1) :: u32) = nat (?v - 1)"
      using v1 v(2) by (intro unat_of_int_u32) simp_all
    ultimately have "unat (left - 1) = nat (?v - 1)" by simp
    moreover have "nat (?v - 1) \<le> ?n" using c1 by linarith
    ultimately have "length sel = nat (?v - 1)" using len by simp
    then show ?thesis using False sg v1 by simp
  qed
qed

text \<open>
  Claim C4 at four strands and ratio 1/4: the claimed survivor count is
  \<open>4 - ceil(4 * 1/4) = 3\<close>, and the code keeps two strands, because the loop decrements
  the counter before testing it (lemma \<open>reduce_strand_count_left\<close> gives the count from
  the counter, and \<open>reduce_strand_count\<close> from the claim's formula, for every ratio strictly
  between 0 and 1 whose product with the strand count is computed exactly).
\<close>

theorem reduce_quarter_of_four_keeps_two:
  "reduce (1 / 4) four_strands = Some four_strands_quarter \<and>
   unat (get_strand_count four_strands) = 4 \<and>
   unat (get_strand_count four_strands_quarter) = 2 \<and>
   int (unat (get_strand_count four_strands))
     - \<lceil>real (unat (get_strand_count four_strands)) * (1 / 4)\<rceil> = 3"
proof -
  have a: "unat (get_strand_count four_strands) = 4"
    by (simp add: four_strands_def example_style_def get_strand_count_def)
  have b: "unat (get_strand_count four_strands_quarter) = 2"
    by (simp add: four_strands_quarter_def example_style_def get_strand_count_def)
  have "int 4 - \<lceil>real 4 * (1 / 4)\<rceil> = 3" by simp
  then show ?thesis
    using reduce_four_strands_quarter b unfolding a by simp
qed

lemma copy_strand_seed:
  "copy_strand i st = Some st' \<Longrightarrow> seed (hair st') = seed (hair st)"
  unfolding copy_strand_def Let_def
  by (auto split: prod.splits option.splits if_splits)

lemma reduce_body_seed_zero:
  assumes "seed (hair st) = 0"
  shows "reduce_body st = copy_strand 0 st"
proof -
  have "(hair st)\<lparr>seed := 0\<rparr> = hair st" using assms by simp
  then have eq: "st\<lparr>hair := (hair st)\<lparr>seed := 0\<rparr>\<rparr> = st" by simp
  show ?thesis
    by (simp add: reduce_body_def assms xorshift64_zero random_strand_index_zero eq)
qed

lemma reduce_loop_seed_zero:
  "reduce_loop st = Some st' \<Longrightarrow> seed (hair st) = 0 \<Longrightarrow> seed (hair st') = 0"
proof (induction st rule: reduce_loop.induct)
  case (1 st)
  show ?case
  proof (cases "strands_left st - 1 \<noteq> 0 \<and> strand_offset st \<noteq> []")
    case True
    then obtain st1 where b: "reduce_body (st\<lparr>strands_left := strands_left st - 1\<rparr>) = Some st1"
      and l: "reduce_loop st1 = Some st'"
      using "1.prems"(1) by (subst (asm) reduce_loop.simps) (auto split: option.splits)
    have "copy_strand 0 (st\<lparr>strands_left := strands_left st - 1\<rparr>) = Some st1"
      using b "1.prems"(2) by (simp add: reduce_body_seed_zero)
    then have "seed (hair st1) = 0" using "1.prems"(2) by (simp add: copy_strand_seed)
    then show ?thesis using "1.IH" [OF True b l] by simp
  next
    case False
    then have "st' = st\<lparr>strands_left := strands_left st - 1\<rparr>"
      using "1.prems"(1) by (subst (asm) reduce_loop.simps) auto
    then show ?thesis using "1.prems"(2) by simp
  qed
qed

lemma reduce_seed_zero:
  assumes red: "reduce ratio a = Some a'" and z: "seed a = 0"
  shows "seed a' = 0"
proof -
  obtain left where left: "shrunk_count (get_strand_count a) ratio = Some left"
    using red by (cases "shrunk_count (get_strand_count a) ratio") (simp_all add: reduce_def)
  obtain vc where vc: "shrunk_count (get_vertex_count a) ratio = Some vc"
    using red left by (cases "shrunk_count (get_vertex_count a) ratio") (simp_all add: reduce_def)
  obtain offs where offs: "strand_offsets a = Some offs"
    using red left vc by (cases "strand_offsets a") (simp_all add: reduce_def)
  let ?st0 = "\<lparr>hair = a, strands_left = left, strand_offset = offs,
                        reduced_segments = [], reduced_vertices = [], reduced_thickness = [],
                        reduced_tangents = [], reduced_transparency = [], reduced_color = []\<rparr>"
  obtain st where loop: "reduce_loop ?st0 = Some st"
    using red left vc offs by (cases "reduce_loop ?st0") (simp_all add: reduce_def)
  obtain a1 where gi: "generate_indices ((hair st)\<lparr>segments := reduced_segments st, vertices := reduced_vertices st\<rparr>) = Some a1"
    using red left vc offs loop
    by (cases "generate_indices ((hair st)\<lparr>segments := reduced_segments st, vertices := reduced_vertices st\<rparr>)")
       (simp_all add: reduce_def)
  have a': "a' = a1\<lparr>thickness := reduced_thickness st,
                   tangents := reduced_tangents st,
                   transparency := reduced_transparency st,
                   color := reduced_color st\<rparr>"
    using red left vc offs loop gi by (simp add: reduce_def)
  have a1: "a1 = (hair st)\<lparr>segments := reduced_segments st, vertices := reduced_vertices st,
                   indices := indices a1\<rparr>"
    using generate_indices_fields [OF gi] by simp
  have "seed (hair st) = 0" using reduce_loop_seed_zero [OF loop] z by simp
  then show ?thesis by (subst a', subst a1) simp
qed

lemma xorshift64_zero_iterated: "((\<lambda>s. snd (xorshift64 s)) ^^ k) 0 = 0"
  by (induction k) (simp_all add: xorshift64_zero)

text \<open>
  Claim C10. State 0 is a fixed point of \<open>xorshift64\<close>: it returns 0 and stores 0, so
  that every later draw is 0 too. The strand index computed from a draw of 0 is 0 for every
  size of the working set; hence, with seed 0, the loop body is exactly the copy of slot 0,
  and the seed is still 0 after the loop and after the whole of \<open>reduce\<close>.
\<close>

theorem xorshift64_zero_is_fixed_point:
  "xorshift64 0 = (0, 0) \<and>
   (\<forall>k. ((\<lambda>s. snd (xorshift64 s)) ^^ k) 0 = 0) \<and>
   (\<forall>n. random_strand_index (fst (xorshift64 0)) n = 0) \<and>
   (\<forall>st :: 'f reduce_state. seed (hair st) = 0 \<longrightarrow> reduce_body st = copy_strand 0 st) \<and>
   (\<forall>(st :: 'f reduce_state) st'. seed (hair st) = 0 \<longrightarrow> reduce_loop st = Some st' \<longrightarrow> seed (hair st') = 0) \<and>
   (\<forall>ratio (a :: 'f HairStyle) a'. seed a = 0 \<longrightarrow> reduce ratio a = Some a' \<longrightarrow> seed a' = 0)"
  using reduce_body_seed_zero reduce_loop_seed_zero reduce_seed_zero
  by (simp add: xorshift64_zero xorshift64_zero_iterated random_strand_index_zero) blast

theorem xorshift64_zero_is_fixed_point_witness:
  "seed four_strands = 0 \<and> seed four_strands_quarter = 0"
proof -
  have z: "seed four_strands = 0" by (simp add: four_strands_def example_style_def)
  from xorshift64_zero_is_fixed_point [where 'f = real]
  have "\<forall>ratio (a :: real HairStyle) a'. seed a = 0 \<longrightarrow> reduce ratio a = Some a' \<longrightarrow> seed a' = 0"
    by blast
  then show ?thesis using z reduce_four_strands_quarter by blast
qed


subsection \<open>A draw of one\<close>

text \<open>The largest value of the generator, \<open>2 ^ 64 - 1\<close>, converts to the double
  \<open>2 ^ 64\<close>, as \<open>UINT64_MAX\<close> does: \<open>random\<close> is 1, and \<open>random_strand\<close> is the
  size of the working set.\<close>

lemma to_double_max: "to_double (2 ^ 64 - 1) = 2 ^ 64"
proof -
  have "floorlog 2 (2 ^ 64 - 1) = 64" by (rule floorlog_2_eq) simp_all
  then show ?thesis by (simp add: to_double_def round_to_bits_def Let_def)
qed

lemma to_double_4: "to_double 4 = 4"
proof -
  have "floorlog 2 4 = 3" by (rule floorlog_2_eq) simp_all
  then show ?thesis by (simp add: to_double_def round_to_bits_def)
qed

lemma to_double_2_66: "to_double (2 ^ 66) = 2 ^ 66"
proof -
  have "floorlog 2 (2 ^ 66) = 67" by (rule floorlog_2_eq) simp_all
  then show ?thesis by (simp add: to_double_def round_to_bits_def Let_def)
qed

lemma random_strand_index_max: "random_strand_index (2 ^ 64 - 1) 4 = 4"
proof -
  have "unat (2 ^ 64 - 1 :: u64) = 2 ^ 64 - 1" by simp
  then have "random_strand_index (2 ^ 64 - 1) 4 = to_double (2 ^ 64 * 4) div 2 ^ 64"
    by (simp only: random_strand_index_def to_double_max to_double_4)
  also have "\<dots> = to_double (2 ^ 66) div 2 ^ 64" by simp
  also have "\<dots> = 4" by (simp only: to_double_2_66) simp
  finally show ?thesis .
qed

lemma xorshift64_to_max: "xorshift64 7650297886450228676 = (2 ^ 64 - 1, 2 ^ 64 - 1)"
  by (simp add: xorshift64_def Let_def)

lemma reduce_body_last_draw:
  assumes "seed (hair st) = 7650297886450228676" "length (strand_offset st) = 4"
    "length (segments (hair st)) = 4"
  shows "reduce_body st = None"
proof -
  have "elem_at (segments ((hair st)\<lparr>seed := 2 ^ 64 - 1\<rparr>)) 4 = None"
    using assms(3) by (simp add: elem_at_def)
  moreover have "has_segments ((hair st)\<lparr>seed := 2 ^ 64 - 1\<rparr>)"
    using assms(3) by (simp add: has_segments_def)
  ultimately have "copy_strand 4 (st\<lparr>hair := (hair st)\<lparr>seed := 2 ^ 64 - 1\<rparr>\<rparr>) = None"
    by (simp add: copy_strand_def)
  then show ?thesis
    by (simp only: reduce_body_def assms(1,2) xorshift64_to_max prod.case random_strand_index_max)
qed

text \<open>
  Claim C6 at the four-strand fixture with seed 7650297886450228676 and ratio 1/4. The
  first draw of the generator is \<open>2 ^ 64 - 1\<close>, \<open>random\<close> is 1 and
  \<open>random_strand\<close> is 4, the size of the working set: the loop body reads
  \<open>segments[4]\<close> and \<open>strand_offset[4]\<close> of vectors with four elements. The behaviour
  is undefined and \<open>reduce\<close> has no result, where the claim has every asset and every
  ratio in (0,1) end with arrays made of whole strands. (When \<open>reduce\<close> does run to
  completion its output is as the claim says: lemma \<open>reduce_keeps_strands_whole\<close>.)
\<close>

theorem reduce_reads_past_the_working_set:
  "xorshift64 (seed four_strands_last_draw) = (2 ^ 64 - 1, 2 ^ 64 - 1) \<and>
   length (segments four_strands_last_draw) = 4 \<and>
   random_strand_index (2 ^ 64 - 1) 4 = 4 \<and>
   elem_at (segments four_strands_last_draw) 4 = None \<and>
   reduce (1 / 4) four_strands_last_draw = None"
proof -
  let ?a = four_strands_last_draw
  have s: "seed ?a = 7650297886450228676"
    by (simp add: four_strands_last_draw_def)
  have l: "length (segments ?a) = 4"
    by (simp add: four_strands_last_draw_def four_strands_def example_style_def)
  have e: "elem_at (segments ?a) 4 = None" using l by (simp add: elem_at_def)
  have left: "shrunk_count (get_strand_count ?a) (1 / 4) = Some 3"
    using l by (simp add: get_strand_count_def shrunk_count_4)
  have vc: "shrunk_count (get_vertex_count ?a) (1 / 4) = Some 6"
    by (simp add: get_vertex_count_def four_strands_last_draw_def four_strands_def
        example_style_def shrunk_count_9)
  have offs: "strand_offsets ?a = Some [0, 2, 5, 7]"
    by (simp add: strand_offsets_def has_segments_def four_strands_last_draw_def
        four_strands_def example_style_def)
  let ?st = "\<lparr>hair = ?a, strands_left = 3 - 1, strand_offset = [0, 2, 5, 7],
              reduced_segments = [], reduced_vertices = [], reduced_thickness = [],
              reduced_tangents = [], reduced_transparency = [], reduced_color = []\<rparr>"
  have "reduce_body ?st = None"
    by (rule reduce_body_last_draw) (simp_all add: s l)
  then have loop: "reduce_loop
       \<lparr>hair = ?a, strands_left = 3, strand_offset = [0, 2, 5, 7],
        reduced_segments = [], reduced_vertices = [], reduced_thickness = [],
        reduced_tangents = [], reduced_transparency = [], reduced_color = []\<rparr> = None"
    by (subst reduce_loop.simps) simp
  have r: "reduce (1 / 4) ?a = None"
    by (simp add: reduce_def left vc offs loop)
  show ?thesis
    using r e l by (simp only: s xorshift64_to_max random_strand_index_max simp_thms)
qed

subsection \<open>The reduction completes\<close>

text \<open>On a well-formed asset with seed 0 and a ratio between 0 and 1 no access of
  \<open>reduce\<close> leaves its array and no conversion overflows: the model returns a
  result. The draw of a zero seed is always 0; from another seed the draw can be the size
  of the working set, as above. The result is that of a machine with the memory for every
  reservation: when no strand survives, \<open>generate_indices\<close> runs on an asset without
  segments and without vertices, and its request is the wrapped
  \<open>(0 - strand_count) * 2\<close> of the header's strand count.\<close>

lemma get_segment_count_emptied:
  "get_segment_count (a\<lparr>segments := [], vertices := []\<rparr>) = 0 - strand_count (file_header a)"
  by (simp add: get_segment_count_def get_vertex_count_def get_strand_count_def)

lemma generate_indices_request_wraps:
  "unat (get_segment_count
           ((example_style [] [])\<lparr>file_header := example_header\<lparr>strand_count := 2\<rparr>\<rparr>) * 2)
     = 2 ^ 32 - 4"
  by (simp add: get_segment_count_def get_vertex_count_def get_strand_count_def
      example_style_def)

lemma for_each_total:
  assumes "\<And>i s. i \<in> set is \<Longrightarrow> \<exists>s'. body i s = Some s'"
  shows "\<exists>s'. for_each body is s = Some s'"
  using assms
proof (induction "is" arbitrary: s)
  case Nil
  then show ?case by simp
next
  case (Cons i "is")
  have "i \<in> set (i # is)" by simp
  then obtain s1 where s1: "body i s = Some s1" using Cons.prems by blast
  have "\<exists>s'. for_each body is s1 = Some s'"
    using Cons.prems by (intro Cons.IH) simp
  then show ?case using s1 by simp
qed

lemma generate_indices_total: "\<exists>a'. generate_indices a = Some a'"
proof -
  have c: "\<exists>c. strand_segment_count a i = Some c" if "i < unat (get_strand_count a)" for i
  proof (cases "has_segments a")
    case True
    have "unat (of_nat (length (segments a)) :: u32) \<le> length (segments a)"
      by (simp add: unat_of_nat)
    then have "i < length (segments a)"
      using that True by (simp add: get_strand_count_def has_segments_def)
    then show ?thesis using True by (simp add: strand_segment_count_def elem_at_def)
  next
    case False
    then show ?thesis by (simp add: strand_segment_count_def)
  qed
  have "\<exists>s'. index_strand a i s = Some s'" if "i \<in> set [0 ..< unat (get_strand_count a)]" for i s
  proof -
    have "i < unat (get_strand_count a)" using that by simp
    then obtain k where "strand_segment_count a i = Some k" using c by blast
    then show ?thesis by (cases s) (simp add: index_strand_def)
  qed
  then have "\<exists>s'. for_each (index_strand a) [0 ..< unat (get_strand_count a)] (0, []) = Some s'"
    by (rule for_each_total)
  then obtain v ixs where "for_each (index_strand a) [0 ..< unat (get_strand_count a)] (0, []) = Some (v, ixs)"
    by (metis surj_pair)
  then show ?thesis by (simp add: generate_indices_def)
qed

lemma strand_within_total:
  assumes "s < length ks"
  shows "sum_list (map Suc (take s ks)) + ks ! s + 1 \<le> sum_list (map Suc ks)"
proof -
  have "ks = take s ks @ ks ! s # drop (Suc s) ks"
    using assms by (simp add: id_take_nth_drop)
  then have "sum_list (map Suc ks) =
      sum_list (map Suc (take s ks)) + Suc (ks ! s) + sum_list (map Suc (drop (Suc s) ks))"
    by (metis (no_types, lifting) add.assoc list.simps(9) map_append sum_list.Cons sum_list_append)
  then show ?thesis by simp
qed

lemma length_le_sum_Suc: "length ks \<le> sum_list (map Suc ks)"
  by (induction ks) simp_all

lemma well_formed_counts:
  assumes "well_formed a"
  shows "unat (get_strand_count a) < 2 ^ 31" and "unat (get_vertex_count a) < 2 ^ 31"
proof -
  have sum: "sum_list (map Suc (segment_counts a)) = length (vertices a)"
    and lv: "length (vertices a) < 2 ^ 31"
    using assms by (simp_all add: well_formed_def)
  have "unat (of_nat (length (vertices a)) :: u32) \<le> length (vertices a)"
    by (simp add: unat_of_nat)
  then show "unat (get_vertex_count a) < 2 ^ 31"
    using lv by (simp add: get_vertex_count_def)
  have l: "length (segment_counts a) < 2 ^ 31"
    using length_le_sum_Suc [of "segment_counts a"] sum lv by simp
  show "unat (get_strand_count a) < 2 ^ 31"
  proof (cases "has_segments a")
    case True
    have "unat (of_nat (length (segments a)) :: u32) \<le> length (segments a)"
      by (simp add: unat_of_nat)
    then show ?thesis
      using True l by (simp add: get_strand_count_def has_segments_def segment_counts_def)
  next
    case False
    then show ?thesis
      using l by (simp add: get_strand_count_def has_segments_def segment_counts_def)
  qed
qed

lemma copy_range_total:
  assumes "xs \<noteq> [] \<Longrightarrow> last' \<le> length xs"
  shows "\<exists>out'. copy_range (length xs \<noteq> 0) xs first last' out = Some out'"
  using assms by (simp add: copy_range_def)

lemma copy_strand_total:
  assumes inv: "reduce_inv a st ws sel" and wf: "well_formed a" and ne: "ws \<noteq> []"
  shows "\<exists>st'. copy_strand 0 st = Some st'"
proof -
  let ?s = "ws ! 0"
  let ?h = "hair st"
  have off: "strand_offset st = map (strand_start a) ws" using inv by (simp add: reduce_inv_def)
  have sg: "segments ?h = (if has_segments a then map (\<lambda>s. segments a ! s) ws else [])"
    using inv by (simp add: reduce_inv_def)
  have arrays: "vertices ?h = vertices a" "thickness ?h = thickness a" "tangents ?h = tangents a"
    "transparency ?h = transparency a" "color ?h = color a" "file_header ?h = file_header a"
    using inv by (simp_all add: reduce_inv_def)
  have "set (ws @ sel) \<subseteq> {..< length (segment_counts a)}" using inv by (simp add: reduce_inv_def)
  then have sn: "?s < length (segment_counts a)" using ne by (cases ws) auto
  have e2: "elem_at (strand_offset st) 0 = Some (strand_start a ?s)"
    using off ne by (cases ws) (simp_all add: elem_at_def)
  obtain c :: u32 and segs' where
    e1: "(if has_segments ?h then
            (case elem_at (segments ?h) 0 of
               None \<Rightarrow> None
             | Some s \<Rightarrow> Some (ucast s :: u32, ?h\<lparr>segments := pop_back (swap_with_back (segments ?h) 0)\<rparr>))
          else Some (get_default_segment_count ?h, ?h)) = Some (c, ?h\<lparr>segments := segs'\<rparr>)"
    and c: "unat c = segment_counts a ! ?s"
  proof (cases "has_segments a")
    case True
    then have h: "has_segments ?h" using sg ne by (simp add: has_segments_def)
    have "elem_at (segments ?h) 0 = Some (segments a ! ?s)"
      using sg True ne by (cases ws) (simp_all add: elem_at_def)
    then have "(if has_segments ?h then
            (case elem_at (segments ?h) 0 of
               None \<Rightarrow> None
             | Some s \<Rightarrow> Some (ucast s :: u32, ?h\<lparr>segments := pop_back (swap_with_back (segments ?h) 0)\<rparr>))
          else Some (get_default_segment_count ?h, ?h))
       = Some (ucast (segments a ! ?s), ?h\<lparr>segments := pop_back (swap_with_back (segments ?h) 0)\<rparr>)"
      using h by simp
    moreover have "unat (ucast (segments a ! ?s) :: u32) = segment_counts a ! ?s"
      using True sn by (simp add: segment_counts_nth_segments unat_ucast_u16_u32)
    ultimately show ?thesis using that by blast
  next
    case False
    then have h: "\<not> has_segments ?h" using sg by (simp add: has_segments_def)
    have "?h\<lparr>segments := segments ?h\<rparr> = ?h" by simp
    then have "(if has_segments ?h then
            (case elem_at (segments ?h) 0 of
               None \<Rightarrow> None
             | Some s \<Rightarrow> Some (ucast s :: u32, ?h\<lparr>segments := pop_back (swap_with_back (segments ?h) 0)\<rparr>))
          else Some (get_default_segment_count ?h, ?h))
       = Some (get_default_segment_count ?h, ?h\<lparr>segments := segments ?h\<rparr>)"
      using h by simp
    moreover have "unat (get_default_segment_count ?h) = segment_counts a ! ?s"
      using False sn arrays(6) by (simp add: segment_counts_nth_default get_default_segment_count_def)
    ultimately show ?thesis using that by blast
  qed
  let ?a' = "?h\<lparr>segments := segs'\<rparr>"
  let ?start = "strand_start a ?s"
  let ?end = "?start + unat c + 1"
  have "?start + segment_counts a ! ?s + 1 \<le> sum_list (map Suc (segment_counts a))"
    unfolding strand_start_def using sn by (rule strand_within_total)
  then have bound: "?end \<le> length (vertices a)"
    using wf c by (simp add: well_formed_def)
  obtain rv where rv: "copy_range (has_vertices ?a') (vertices ?a') ?start ?end (reduced_vertices st) = Some rv"
    using copy_range_total [of "vertices a" ?end ?start "reduced_vertices st"] bound
    by (auto simp: has_vertices_def arrays)
  obtain rth where rth: "copy_range (has_thickness ?a') (thickness ?a') ?start ?end (reduced_thickness st) = Some rth"
    using copy_range_total [of "thickness a" ?end ?start "reduced_thickness st"] bound wf
    by (auto simp: has_thickness_def arrays well_formed_def)
  obtain rta where rta: "copy_range (has_tangents ?a') (tangents ?a') ?start ?end (reduced_tangents st) = Some rta"
    using copy_range_total [of "tangents a" ?end ?start "reduced_tangents st"] bound wf
    by (auto simp: has_tangents_def arrays well_formed_def)
  obtain rtr where rtr: "copy_range (has_transparency ?a') (transparency ?a') ?start ?end (reduced_transparency st) = Some rtr"
    using copy_range_total [of "transparency a" ?end ?start "reduced_transparency st"] bound wf
    by (auto simp: has_transparency_def arrays well_formed_def)
  obtain rc where rc: "copy_range (has_color ?a') (color ?a') ?start ?end (reduced_color st) = Some rc"
    using copy_range_total [of "color a" ?end ?start "reduced_color st"] bound wf
    by (auto simp: has_color_def arrays well_formed_def)
  have "copy_strand 0 st =
          Some (st\<lparr>hair := ?a',
                  strand_offset := pop_back (swap_with_back (strand_offset st) 0),
                  reduced_segments := reduced_segments st @ [ucast c],
                  reduced_vertices := rv,
                  reduced_thickness := rth,
                  reduced_tangents := rta,
                  reduced_transparency := rtr,
                  reduced_color := rc\<rparr>)"
    unfolding copy_strand_def Let_def e1
    by (simp only: option.case prod.case e2 rv rth rta rtr rc)
  then show ?thesis by blast
qed

lemma reduce_loop_total:
  "reduce_inv a st ws sel \<Longrightarrow> well_formed a \<Longrightarrow> seed (hair st) = 0 \<Longrightarrow>
   \<exists>st'. reduce_loop st = Some st'"
proof (induction st arbitrary: ws sel rule: reduce_loop.induct)
  case (1 st)
  show ?case
  proof (cases "strands_left st - 1 \<noteq> 0 \<and> strand_offset st \<noteq> []")
    case True
    let ?st1 = "st\<lparr>strands_left := strands_left st - 1\<rparr>"
    have inv1: "reduce_inv a ?st1 ws sel" using "1.prems"(1) by simp
    have "strand_offset st = map (strand_start a) ws"
      using "1.prems"(1) by (simp add: reduce_inv_def)
    then have "ws \<noteq> []" using True by auto
    from copy_strand_total [OF inv1 "1.prems"(2) this]
    obtain st2 where c: "copy_strand 0 ?st1 = Some st2" by blast
    have z: "seed (hair ?st1) = 0" using "1.prems"(3) by simp
    have b: "reduce_body ?st1 = Some st2"
      using c reduce_body_seed_zero [OF z] by simp
    from reduce_body_inv [OF inv1 b] obtain i where
      inv2: "reduce_inv a st2 (pop_back (swap_with_back ws i)) (sel @ [ws ! i])" by blast
    have "seed (hair st2) = 0" using copy_strand_seed [OF c] z by simp
    from "1.IH" [OF True b inv2 "1.prems"(2) this]
    obtain st' where "reduce_loop st2 = Some st'" by blast
    then have "reduce_loop st = Some st'"
      using True b by (subst reduce_loop.simps) simp
    then show ?thesis by blast
  next
    case False
    then have "reduce_loop st = Some (st\<lparr>strands_left := strands_left st - 1\<rparr>)"
      by (subst reduce_loop.simps) auto
    then show ?thesis by blast
  qed
qed

lemma reduce_inv_initial:
  assumes offs: "strand_offsets a = Some offs"
    and cond: "has_segments a \<or> default_segment_count (file_header a) + 1 \<noteq> 0"
  shows "reduce_inv a
           \<lparr>hair = a, strands_left = left, strand_offset = offs,
            reduced_segments = [], reduced_vertices = [], reduced_thickness = [],
            reduced_tangents = [], reduced_transparency = [], reduced_color = []\<rparr>
           [0 ..< length (segment_counts a)] []"
proof -
  let ?n = "length (segment_counts a)"
  note tab = strand_offsets_table [OF offs cond]
  have segs: "(if has_segments a then map (\<lambda>s. segments a ! s) [0 ..< ?n] else []) = segments a"
    by (simp add: segment_counts_def has_segments_def map_nth)
  show ?thesis
    unfolding reduce_inv_def by (auto simp: gathered_Nil tab(1) segs)
qed

lemma well_formed_offsets:
  assumes "well_formed a"
  shows "\<exists>offs. strand_offsets a = Some offs"
    and "has_segments a \<or> default_segment_count (file_header a) + 1 \<noteq> 0"
proof -
  have ne: "segment_counts a \<noteq> []"
    and sum: "sum_list (map Suc (segment_counts a)) = length (vertices a)"
    and lv: "length (vertices a) < 2 ^ 31"
    using assms by (simp_all add: well_formed_def)
  show "\<exists>offs. strand_offsets a = Some offs"
  proof (cases "has_segments a")
    case True
    then have "sum_list (map (\<lambda>s. unat s + 1) (segments a)) = sum_list (map Suc (segment_counts a))"
      by (simp add: segment_counts_def o_def)
    then show ?thesis using True sum lv by (simp add: strand_offsets_def)
  next
    case False
    then have "unat (get_strand_count a) \<noteq> 0"
      using ne by (simp add: segment_counts_def get_strand_count_def has_segments_def)
    then show ?thesis using False by (simp add: strand_offsets_def)
  qed
  show "has_segments a \<or> default_segment_count (file_header a) + 1 \<noteq> 0"
  proof (cases "has_segments a")
    case True
    then show ?thesis by simp
  next
    case False
    let ?d = "default_segment_count (file_header a)"
    let ?n = "unat (strand_count (file_header a))"
    have sc: "segment_counts a = replicate ?n (unat ?d)"
      using False by (simp add: segment_counts_def)
    have "0 < ?n" using ne sc by simp
    then have "1 * Suc (unat ?d) \<le> ?n * Suc (unat ?d)"
      by (intro mult_le_mono1) simp
    then have "Suc (unat ?d) \<le> ?n * Suc (unat ?d)" by (simp only: mult_1)
    moreover have "?n * Suc (unat ?d) < 2 ^ 31"
      using sum lv sc by (simp add: sum_list_replicate)
    ultimately have "Suc (unat ?d) < 2 ^ 31" by (rule le_less_trans)
    then have small: "unat ?d < 2 ^ 32 - 1" by simp
    have "?d + 1 \<noteq> 0"
    proof
      assume "?d + 1 = 0"
      then have "?d + 1 - 1 = 0 - 1" by (rule arg_cong)
      then have "?d = 0 - 1" by simp
      then have "unat ?d = 2 ^ 32 - 1" by (simp only: unat_minus_one_u32)
      then show False using small by simp
    qed
    then show ?thesis by simp
  qed
qed

lemma reduce_completes_with_zero_seed:
  assumes wf: "well_formed a" and z: "seed a = 0" and r: "0 \<le> ratio" "ratio \<le> 1"
  shows "\<exists>a'. reduce ratio a = Some a'"
proof -
  obtain left where left: "shrunk_count (get_strand_count a) ratio = Some left"
    using shrunk_count_total [OF well_formed_counts(1) [OF wf] r] by blast
  obtain vc where vc: "shrunk_count (get_vertex_count a) ratio = Some vc"
    using shrunk_count_total [OF well_formed_counts(2) [OF wf] r] by blast
  obtain offs where offs: "strand_offsets a = Some offs"
    using well_formed_offsets(1) [OF wf] by blast
  let ?st0 = "\<lparr>hair = a, strands_left = left, strand_offset = offs,
                reduced_segments = [], reduced_vertices = [], reduced_thickness = [],
                reduced_tangents = [], reduced_transparency = [], reduced_color = []\<rparr>"
  have inv: "reduce_inv a ?st0 [0 ..< length (segment_counts a)] []"
    using offs well_formed_offsets(2) [OF wf] by (rule reduce_inv_initial)
  have "seed (hair ?st0) = 0" using z by simp
  from reduce_loop_total [OF inv wf this] obtain st where loop: "reduce_loop ?st0 = Some st"
    by blast
  obtain a1 where gi: "generate_indices
      ((hair st)\<lparr>segments := reduced_segments st, vertices := reduced_vertices st\<rparr>) = Some a1"
    using generate_indices_total by blast
  show ?thesis by (simp add: reduce_def left vc offs loop gi)
qed

lemma four_strands_well_formed: "well_formed four_strands"
  by (simp add: well_formed_def four_strands_def example_style_def segment_counts_def
      has_segments_def)


section \<open>Binary codec\<close>

subsection \<open>Bytes and sections\<close>

lemma length_le_bytes [simp]: "length (le_bytes n k) = n"
  by (induction n arbitrary: k) simp_all

lemma unat_byte_of_nat: "unat (of_nat (k mod 256) :: byte) = k mod 256"
  by (simp add: unat_of_nat)

lemma le_value_le_bytes: "le_value (le_bytes n k) = k mod 256 ^ n"
proof (induction n arbitrary: k)
  case 0
  then show ?case by simp
next
  case (Suc n)
  have "le_value (le_bytes (Suc n) k) = k mod 256 + 256 * (k div 256 mod 256 ^ n)"
    using Suc.IH [of "k div 256"] by (simp add: unat_byte_of_nat)
  also have "\<dots> = k mod (256 * 256 ^ n)"
    by (simp add: mod_mult2_eq)
  finally show ?case by simp
qed

lemma u32_roundtrip: "u32_of_bytes (u32_bytes x) = x"
proof -
  have "unat x < 2 ^ 32" using unsigned_less [of x] by simp
  then have "unat x mod 256 ^ 4 = unat x" by simp
  then show ?thesis by (simp add: u32_of_bytes_def u32_bytes_def le_value_le_bytes)
qed

lemma u16_roundtrip: "u16_of_bytes (u16_bytes x) = x"
proof -
  have "unat x < 2 ^ 16" using unsigned_less [of x] by simp
  then have "unat x mod 256 ^ 2 = unat x" by simp
  then show ?thesis by (simp add: u16_of_bytes_def u16_bytes_def le_value_le_bytes)
qed

lemma length_u32_bytes [simp]: "length (u32_bytes x) = 4"
  by (simp add: u32_bytes_def)

lemma length_u16_bytes [simp]: "length (u16_bytes x) = 2"
  by (simp add: u16_bytes_def)

lemma length_vec3_bytes [simp]: "length (vec3_bytes v) = 12"
  by (simp add: vec3_bytes_def)

lemma vec3_roundtrip: "vec3_of_bytes (vec3_bytes v) = v"
  by (cases v) (simp add: vec3_of_bytes_def vec3_bytes_def u32_roundtrip)

lemma decode_elements_concat:
  assumes "\<And>x. length (enc x) = sz" "\<And>x. dec (enc x) = x"
  shows "decode_elements (length xs) sz dec (concat (map enc xs) @ rest) = xs"
  by (induction xs) (simp_all add: assms)

lemma length_concat_fixed:
  assumes "\<And>x. length (enc x) = sz"
  shows "length (concat (map enc xs)) = length xs * sz"
  by (induction xs) (simp_all add: assms)

lemma read_field_written:
  assumes "\<And>x. length (enc x) = sz" "\<And>x. dec (enc x) = x" "length fld = length xs"
  shows "read_field sz dec enc (concat (map enc xs) @ rest) fld = (True, xs, rest)"
  using decode_elements_concat [of enc sz dec xs rest, OF assms(1,2)]
    length_concat_fixed [of enc sz xs, OF assms(1)] assms(3)
  by (simp add: read_field_def)

lemma length_resize [simp]: "length (resize n fill xs) = n"
  by (simp add: resize_def)


lemma resize_empty_length: "length (resize n fill []) = n"
  by simp

lemma read_segments_written:
  assumes "has_segments_bit (field (file_header b)) = (xs \<noteq> [])"
    and "xs \<noteq> [] \<Longrightarrow> unat (strand_count (file_header b)) = length xs"
    and "segments b = []"
  shows "read_segments (concat (map u16_bytes xs) @ rest) b = (True, b\<lparr>segments := xs\<rparr>, rest)"
proof (cases "xs = []")
  case True
  then show ?thesis using assms(1,3) by (simp add: read_segments_def)
next
  case False
  have "read_field 2 u16_of_bytes u16_bytes (concat (map u16_bytes xs) @ rest)
          (resize (unat (strand_count (file_header b))) 0 (segments b)) = (True, xs, rest)"
    using assms(2) False by (intro read_field_written) (simp_all add: u16_roundtrip)
  then show ?thesis using False assms(1) by (simp add: read_segments_def)
qed

lemma read_vertices_written:
  assumes "has_vertices_bit (field (file_header b)) = (xs \<noteq> [])"
    and "xs \<noteq> [] \<Longrightarrow> unat (vertex_count (file_header b)) = length xs"
    and "vertices b = []"
  shows "read_vertices (concat (map vec3_bytes xs) @ rest) b = (True, b\<lparr>vertices := xs\<rparr>, rest)"
proof (cases "xs = []")
  case True
  then show ?thesis using assms(1,3) by (simp add: read_vertices_def)
next
  case False
  have "read_field 12 vec3_of_bytes vec3_bytes (concat (map vec3_bytes xs) @ rest)
          (resize (unat (vertex_count (file_header b))) (Vec3 0 0 0) (vertices b)) = (True, xs, rest)"
    using assms(2) False by (intro read_field_written) (simp_all add: vec3_roundtrip)
  then show ?thesis using False assms(1) by (simp add: read_vertices_def)
qed

lemma read_thickness_written:
  assumes "has_thickness_bit (field (file_header b)) = (xs \<noteq> [])"
    and "xs \<noteq> [] \<Longrightarrow> unat (vertex_count (file_header b)) = length xs"
    and "thickness b = []"
  shows "read_thickness (concat (map u32_bytes xs) @ rest) b = (True, b\<lparr>thickness := xs\<rparr>, rest)"
proof (cases "xs = []")
  case True
  then show ?thesis using assms(1,3) by (simp add: read_thickness_def)
next
  case False
  have "read_field 4 u32_of_bytes u32_bytes (concat (map u32_bytes xs) @ rest)
          (resize (unat (vertex_count (file_header b))) 0 (thickness b)) = (True, xs, rest)"
    using assms(2) False by (intro read_field_written) (simp_all add: u32_roundtrip)
  then show ?thesis using False assms(1) by (simp add: read_thickness_def)
qed

lemma read_transparancy_written:
  assumes "has_transparency_bit (field (file_header b)) = (xs \<noteq> [])"
    and "xs \<noteq> [] \<Longrightarrow> unat (vertex_count (file_header b)) = length xs"
    and "transparency b = []"
  shows "read_transparancy (concat (map u32_bytes xs) @ rest) b = (True, b\<lparr>transparency := xs\<rparr>, rest)"
proof (cases "xs = []")
  case True
  then show ?thesis using assms(1,3) by (simp add: read_transparancy_def)
next
  case False
  have "read_field 4 u32_of_bytes u32_bytes (concat (map u32_bytes xs) @ rest)
          (resize (unat (vertex_count (file_header b))) 0 (transparency b)) = (True, xs, rest)"
    using assms(2) False by (intro read_field_written) (simp_all add: u32_roundtrip)
  then show ?thesis using False assms(1) by (simp add: read_transparancy_def)
qed

lemma read_color_written:
  assumes "has_color_bit (field (file_header b)) = (xs \<noteq> [])"
    and "xs \<noteq> [] \<Longrightarrow> unat (vertex_count (file_header b)) = length xs"
    and "color b = []"
  shows "read_color (concat (map vec3_bytes xs) @ rest) b = (True, b\<lparr>color := xs\<rparr>, rest)"
proof (cases "xs = []")
  case True
  then show ?thesis using assms(1,3) by (simp add: read_color_def)
next
  case False
  have "read_field 12 vec3_of_bytes vec3_bytes (concat (map vec3_bytes xs) @ rest)
          (resize (unat (vertex_count (file_header b))) (Vec3 0 0 0) (color b)) = (True, xs, rest)"
    using assms(2) False by (intro read_field_written) (simp_all add: vec3_roundtrip)
  then show ?thesis using False assms(1) by (simp add: read_color_def)
qed

lemma read_tangents_written:
  assumes "has_tangents_bit (field (file_header b)) = (xs \<noteq> [])"
    and "xs \<noteq> [] \<Longrightarrow> unat (vertex_count (file_header b)) = length xs"
    and "tangents b = []"
  shows "read_tangents (concat (map vec3_bytes xs) @ rest) b = (True, b\<lparr>tangents := xs\<rparr>, rest)"
proof (cases "xs = []")
  case True
  then show ?thesis using assms(1,3) by (simp add: read_tangents_def)
next
  case False
  have "read_field 12 vec3_of_bytes vec3_bytes (concat (map vec3_bytes xs) @ rest)
          (resize (unat (vertex_count (file_header b))) (Vec3 0 0 0) (tangents b)) = (True, xs, rest)"
    using assms(2) False by (intro read_field_written) (simp_all add: vec3_roundtrip)
  then show ?thesis using False assms(1) by (simp add: read_tangents_def)
qed

lemma read_indices_written:
  assumes "has_indices_bit (field (file_header b)) = (xs \<noteq> [])"
    and "xs \<noteq> [] \<Longrightarrow> unat (get_segment_count b * 2) = length xs"
    and "indices b = []"
  shows "read_indices (concat (map u32_bytes xs) @ rest) b = (True, b\<lparr>indices := xs\<rparr>, rest)"
proof (cases "xs = []")
  case True
  then show ?thesis using assms(1,3) by (simp add: read_indices_def)
next
  case False
  have "read_field 4 u32_of_bytes u32_bytes (concat (map u32_bytes xs) @ rest)
          (resize (unat (get_segment_count b * 2)) 0 (indices b)) = (True, xs, rest)"
    using assms(2) False by (intro read_field_written) (simp_all add: u32_roundtrip)
  then show ?thesis using False assms(1) by (simp add: read_indices_def)
qed


lemma complete_header_arrays [simp]:
  "segments (complete_header a) = segments a"
  "vertices (complete_header a) = vertices a"
  "thickness (complete_header a) = thickness a"
  "transparency (complete_header a) = transparency a"
  "color (complete_header a) = color a"
  "tangents (complete_header a) = tangents a"
  "indices (complete_header a) = indices a"
  "seed (complete_header a) = seed a"
  by (simp_all add: complete_header_def update_bitfield_def Let_def)

lemma complete_header_header:
  "signature (file_header (complete_header a)) = (CHR ''H'', CHR ''A'', CHR ''I'', CHR ''R'')"
  "strand_count (file_header (complete_header a)) = get_strand_count a"
  "vertex_count (file_header (complete_header a)) = get_vertex_count a"
  "has_segments_bit (field (file_header (complete_header a))) = (segments a \<noteq> [])"
  "has_vertices_bit (field (file_header (complete_header a))) = (vertices a \<noteq> [])"
  "has_thickness_bit (field (file_header (complete_header a))) = (thickness a \<noteq> [])"
  "has_transparency_bit (field (file_header (complete_header a))) = (transparency a \<noteq> [])"
  "has_color_bit (field (file_header (complete_header a))) = (color a \<noteq> [])"
  "has_tangents_bit (field (file_header (complete_header a))) = (tangents a \<noteq> [])"
  "has_indices_bit (field (file_header (complete_header a))) = (indices a \<noteq> [])"
  "future_extension (field (file_header (complete_header a))) = 0"
  "has_bounding_box_bit (field (file_header (complete_header a))) = has_bounding_box_bit (field (file_header a))"
  by (simp_all add: complete_header_def update_bitfield_def Let_def get_strand_count_def
      get_vertex_count_def has_segments_def has_vertices_def has_thickness_def
      has_transparency_def has_color_def has_tangents_def has_indices_def)

lemma write_field_Some:
  "write_field refused enc fld stream = Some out \<Longrightarrow> out = stream @ concat (map enc fld)"
  by (simp add: write_field_def split: if_splits)

lemma save_file:
  assumes "save refuses a = (a1, Some f)"
  shows "format_is_valid (complete_header a)"
    and "a1 = set_error_state NoneError (complete_header a)"
    and "file_head f = Some (file_header (complete_header a))"
    and "file_body f =
           concat (map u16_bytes (segments a)) @ concat (map vec3_bytes (vertices a)) @
           concat (map u32_bytes (thickness a)) @ concat (map u32_bytes (transparency a)) @
           concat (map vec3_bytes (color a)) @ concat (map vec3_bytes (tangents a)) @
           concat (map u32_bytes (indices a))"
proof -
  let ?c = "complete_header a"
  have v: "format_is_valid ?c"
    using assms by (auto simp: save_def Let_def split: if_splits)
  obtain s1 where s1: "write_segments refuses ?c [] = Some s1"
    using assms v by (cases "write_segments refuses ?c []") (auto simp: save_def Let_def split: if_splits)
  obtain s2 where s2: "write_vertices refuses ?c s1 = Some s2"
    using assms v s1 by (cases "write_vertices refuses ?c s1") (auto simp: save_def Let_def split: if_splits)
  obtain s3 where s3: "write_thickness refuses ?c s2 = Some s3"
    using assms v s1 s2 by (cases "write_thickness refuses ?c s2") (auto simp: save_def Let_def split: if_splits)
  obtain s4 where s4: "write_transparancy refuses ?c s3 = Some s4"
    using assms v s1 s2 s3 by (cases "write_transparancy refuses ?c s3") (auto simp: save_def Let_def split: if_splits)
  obtain s5 where s5: "write_color refuses ?c s4 = Some s5"
    using assms v s1 s2 s3 s4 by (cases "write_color refuses ?c s4") (auto simp: save_def Let_def split: if_splits)
  obtain s6 where s6: "write_tangents refuses ?c s5 = Some s6"
    using assms v s1 s2 s3 s4 s5 by (cases "write_tangents refuses ?c s5") (auto simp: save_def Let_def split: if_splits)
  obtain s7 where s7: "write_indices refuses ?c s6 = Some s7"
    using assms v s1 s2 s3 s4 s5 s6 by (cases "write_indices refuses ?c s6") (auto simp: save_def Let_def split: if_splits)
  have r: "a1 = set_error_state NoneError ?c \<and> f = \<lparr>file_head = Some (file_header ?c), file_body = s7\<rparr>"
    using assms v s1 s2 s3 s4 s5 s6 s7 by (auto simp: save_def Let_def split: if_splits)
  have e1: "s1 = concat (map u16_bytes (segments a))"
    using s1 by (cases "segments a = []")
      (auto simp: write_segments_def complete_header_header dest: write_field_Some split: if_splits)
  have e2: "s2 = s1 @ concat (map vec3_bytes (vertices a))"
    using s2 by (cases "vertices a = []")
      (auto simp: write_vertices_def complete_header_header dest: write_field_Some split: if_splits)
  have e3: "s3 = s2 @ concat (map u32_bytes (thickness a))"
    using s3 by (cases "thickness a = []")
      (auto simp: write_thickness_def complete_header_header dest: write_field_Some split: if_splits)
  have e4: "s4 = s3 @ concat (map u32_bytes (transparency a))"
    using s4 by (cases "transparency a = []")
      (auto simp: write_transparancy_def complete_header_header dest: write_field_Some split: if_splits)
  have e5: "s5 = s4 @ concat (map vec3_bytes (color a))"
    using s5 by (cases "color a = []")
      (auto simp: write_color_def complete_header_header dest: write_field_Some split: if_splits)
  have e6: "s6 = s5 @ concat (map vec3_bytes (tangents a))"
    using s6 by (cases "tangents a = []")
      (auto simp: write_tangents_def complete_header_header dest: write_field_Some split: if_splits)
  have e7: "s7 = s6 @ concat (map u32_bytes (indices a))"
    using s7 by (cases "indices a = []")
      (auto simp: write_indices_def complete_header_header dest: write_field_Some split: if_splits)
  show "format_is_valid ?c" by (rule v)
  show "a1 = set_error_state NoneError ?c" using r by simp
  show "file_head f = Some (file_header ?c)" using r by simp
  show "file_body f =
           concat (map u16_bytes (segments a)) @ concat (map vec3_bytes (vertices a)) @
           concat (map u32_bytes (thickness a)) @ concat (map u32_bytes (transparency a)) @
           concat (map vec3_bytes (color a)) @ concat (map vec3_bytes (tangents a)) @
           concat (map u32_bytes (indices a))"
    using r e1 e2 e3 e4 e5 e6 e7 by simp
qed


lemma format_is_valid_lengths:
  assumes "format_is_valid a"
  shows "vertices a \<noteq> []" "valid_signature a"
    "thickness a \<noteq> [] \<Longrightarrow> length (thickness a) = length (vertices a)"
    "transparency a \<noteq> [] \<Longrightarrow> length (transparency a) = length (vertices a)"
    "color a \<noteq> [] \<Longrightarrow> length (color a) = length (vertices a)"
  using assms
  by (auto simp: format_is_valid_def has_vertices_def has_thickness_def has_transparency_def
      has_color_def split: if_splits)

lemma load_saved:
  assumes sv: "save refuses a = (a1, Some f)"
    and ls: "length (segments a) < 2 ^ 32"
    and lv: "length (vertices a) < 2 ^ 32"
    and lt: "tangents a \<noteq> [] \<Longrightarrow> length (tangents a) = length (vertices a)"
    and li: "indices a \<noteq> [] \<Longrightarrow> length (indices a) = unat (get_segment_count a * 2)"
    and empty: "segments b0 = []" "vertices b0 = []" "thickness b0 = []" "transparency b0 = []"
      "color b0 = []" "tangents b0 = []" "indices b0 = []"
  shows "load (Some f) b0 = (complete_header a)\<lparr>error_state := NoneError, seed := seed b0\<rparr>"
proof -
  let ?c = "complete_header a"
  let ?h = "file_header ?c"
  note sf = save_file [OF sv]
  note fv = format_is_valid_lengths [OF sf(1)]
  note ch = complete_header_header [of a]
  let ?S = "concat (map u16_bytes (segments a))"
  let ?V = "concat (map vec3_bytes (vertices a))"
  let ?T = "concat (map u32_bytes (thickness a))"
  let ?P = "concat (map u32_bytes (transparency a))"
  let ?C = "concat (map vec3_bytes (color a))"
  let ?G = "concat (map vec3_bytes (tangents a))"
  let ?I = "concat (map u32_bytes (indices a))"
  let ?B0 = "b0\<lparr>file_header := ?h\<rparr>"
  let ?B1 = "?B0\<lparr>segments := segments a\<rparr>"
  let ?B2 = "?B1\<lparr>vertices := vertices a\<rparr>"
  let ?B3 = "?B2\<lparr>thickness := thickness a\<rparr>"
  let ?B4 = "?B3\<lparr>transparency := transparency a\<rparr>"
  let ?B5 = "?B4\<lparr>color := color a\<rparr>"
  let ?B6 = "?B5\<lparr>tangents := tangents a\<rparr>"
  let ?B7 = "?B6\<lparr>indices := indices a\<rparr>"
  have sc: "segments a \<noteq> [] \<Longrightarrow> unat (get_strand_count a) = length (segments a)"
    using ls by (simp add: get_strand_count_def unat_of_nat_u32)
  have vc: "unat (get_vertex_count a) = length (vertices a)"
    using lv by (simp add: get_vertex_count_def unat_of_nat_u32)
  have sig: "valid_signature ?B0"
    using fv(2) by (simp add: valid_signature_def)
  have r1: "read_segments (?S @ ?V @ ?T @ ?P @ ?C @ ?G @ ?I) ?B0 = (True, ?B1, ?V @ ?T @ ?P @ ?C @ ?G @ ?I)"
    by (rule read_segments_written) (simp_all add: ch sc empty)
  have r2: "read_vertices (?V @ ?T @ ?P @ ?C @ ?G @ ?I) ?B1 = (True, ?B2, ?T @ ?P @ ?C @ ?G @ ?I)"
    by (rule read_vertices_written) (simp_all add: ch vc empty)
  have r3: "read_thickness (?T @ ?P @ ?C @ ?G @ ?I) ?B2 = (True, ?B3, ?P @ ?C @ ?G @ ?I)"
    using fv(3) by (intro read_thickness_written) (simp_all add: ch vc empty)
  have r4: "read_transparancy (?P @ ?C @ ?G @ ?I) ?B3 = (True, ?B4, ?C @ ?G @ ?I)"
    using fv(4) by (intro read_transparancy_written) (simp_all add: ch vc empty)
  have r5: "read_color (?C @ ?G @ ?I) ?B4 = (True, ?B5, ?G @ ?I)"
    using fv(5) by (intro read_color_written) (simp_all add: ch vc empty)
  have r6: "read_tangents (?G @ ?I) ?B5 = (True, ?B6, ?I)"
    using lt by (intro read_tangents_written) (simp_all add: ch vc empty)
  have gs: "get_segment_count ?B6 = get_segment_count a"
    by (simp add: get_segment_count_def get_vertex_count_def get_strand_count_def ch)
  have r7: "read_indices (?I @ []) ?B6 = (True, ?B7, [])"
    using li by (intro read_indices_written) (simp_all add: ch gs empty)
  have sig7: "valid_signature ?B7"
    using fv(2) by (simp add: valid_signature_def)
  have valid: "format_is_valid ?B7"
    unfolding format_is_valid_def has_vertices_def has_thickness_def has_transparency_def
      has_color_def
    using fv(1,3,4,5) sig7 by auto
  have "load (Some f) b0 = set_error_state NoneError ?B7"
    using r1 r2 r3 r4 r5 r6 r7 sig valid
    by (simp add: load_def sf(3) sf(4) Let_def)
  also have "\<dots> = ?c\<lparr>error_state := NoneError, seed := seed b0\<rparr>"
    by (simp add: set_error_state_def)
  finally show ?thesis .
qed


subsection \<open>Saving, then loading\<close>

lemma save_succeeds:
  assumes "format_is_valid (complete_header a)" and "\<And>e. \<not> refuses e"
  shows "\<exists>a1 f. save refuses a = (a1, Some f) \<and> succeeded a1"
  using assms
  by (simp add: save_def Let_def write_segments_def write_vertices_def write_thickness_def
      write_transparancy_def write_color_def write_tangents_def write_indices_def
      write_field_def succeeded_def set_error_state_def)

text \<open>
  Claim C1, as the code has it. Take an asset that passes \<open>format_is_valid\<close> once its
  header is completed, whose segment and vertex counts fit 32 bits, whose tangents (when
  present) have one entry per vertex and whose indices (when present) have
  \<open>2 * get_segment_count()\<close> entries, and a device that accepts every write. Then
  \<open>save\<close> succeeds, and constructing a new object from the written file succeeds and
  gives back every array unchanged, the same strand and vertex counts, and the header that
  \<open>save\<close> completed: the vertex count and the presence bits are recomputed from the
  arrays, and the strand count is \<open>get_strand_count()\<close> (the number of segments
  entries, or the header's own value when there is no segments array).
\<close>

theorem save_load_roundtrip:
  assumes "format_is_valid (complete_header a)"
    and "\<And>e. \<not> refuses e"
    and "length (segments a) < 2 ^ 32"
    and "length (vertices a) < 2 ^ 32"
    and "tangents a \<noteq> [] \<Longrightarrow> length (tangents a) = length (vertices a)"
    and "indices a \<noteq> [] \<Longrightarrow> length (indices a) = unat (get_segment_count a * 2)"
  shows "\<exists>a1 f b. save refuses a = (a1, Some f) \<and> succeeded a1 \<and>
           b = construct (Some f) h0 r \<and> succeeded b \<and>
           segments b = segments a \<and> vertices b = vertices a \<and>
           thickness b = thickness a \<and> transparency b = transparency a \<and>
           color b = color a \<and> tangents b = tangents a \<and> indices b = indices a \<and>
           get_strand_count b = get_strand_count a \<and>
           get_vertex_count b = get_vertex_count a \<and>
           file_header b = file_header a1 \<and>
           strand_count (file_header a1) = get_strand_count a \<and>
           vertex_count (file_header a1) = get_vertex_count a \<and>
           has_segments_bit (field (file_header a1)) = has_segments a \<and>
           has_vertices_bit (field (file_header a1)) = has_vertices a \<and>
           has_thickness_bit (field (file_header a1)) = has_thickness a \<and>
           has_transparency_bit (field (file_header a1)) = has_transparency a \<and>
           has_color_bit (field (file_header a1)) = has_color a \<and>
           has_tangents_bit (field (file_header a1)) = has_tangents a \<and>
           has_indices_bit (field (file_header a1)) = has_indices a"
proof -
  let ?c = "complete_header a"
  from save_succeeds [of a refuses, OF assms(1,2)] obtain a1 f where
    sv: "save refuses a = (a1, Some f)" and ok: "succeeded a1" by blast
  have a1: "a1 = set_error_state NoneError ?c" using sv by (rule save_file(2))
  have b: "construct (Some f) h0 r = ?c\<lparr>error_state := NoneError, seed := seed (new_style h0 r)\<rparr>"
    unfolding construct_def
    using sv assms(3-6) by (rule load_saved) (simp_all add: new_style_def)
  let ?b = "construct (Some f) h0 r"
  have "succeeded ?b" by (simp add: b succeeded_def)
  moreover have "segments ?b = segments a" "vertices ?b = vertices a"
    "thickness ?b = thickness a" "transparency ?b = transparency a"
    "color ?b = color a" "tangents ?b = tangents a" "indices ?b = indices a"
    by (simp_all add: b)
  moreover have "file_header ?b = file_header a1"
    by (simp add: b a1 set_error_state_def)
  moreover have "get_strand_count ?b = get_strand_count a"
    by (simp add: b get_strand_count_def complete_header_header)
  moreover have "get_vertex_count ?b = get_vertex_count a"
    by (simp add: b get_vertex_count_def)
  moreover have "strand_count (file_header a1) = get_strand_count a"
    "vertex_count (file_header a1) = get_vertex_count a"
    "has_segments_bit (field (file_header a1)) = has_segments a"
    "has_vertices_bit (field (file_header a1)) = has_vertices a"
    "has_thickness_bit (field (file_header a1)) = has_thickness a"
    "has_transparency_bit (field (file_header a1)) = has_transparency a"
    "has_color_bit (field (file_header a1)) = has_color a"
    "has_tangents_bit (field (file_header a1)) = has_tangents a"
    "has_indices_bit (field (file_header a1)) = has_indices a"
    by (simp_all add: a1 set_error_state_def complete_header_header has_segments_def
        has_vertices_def has_thickness_def has_transparency_def has_color_def has_tangents_def
        has_indices_def)
  ultimately show ?thesis using sv ok by blast
qed

lemma two_vertex_strand_valid: "format_is_valid (complete_header two_vertex_strand)"
  by (simp add: format_is_valid_def valid_signature_def complete_header_header
      has_vertices_def has_thickness_def has_transparency_def has_color_def two_vertex_strand_def)

theorem save_load_roundtrip_witness:
  "\<exists>a1 f b. save (\<lambda>e. False) two_vertex_strand = (a1, Some f) \<and>
      b = construct (Some f) blank_header 5 \<and> succeeded b \<and>
      vertices b = [Vec3 1 2 3, Vec3 4 5 6] \<and> thickness b = [7, 8] \<and> indices b = [0, 1] \<and>
      segments b = [1] \<and> strand_count (file_header b) = 1 \<and> vertex_count (file_header b) = 2"
proof -
  have s: "length (segments two_vertex_strand) < 2 ^ 32" "length (vertices two_vertex_strand) < 2 ^ 32"
    by (simp_all add: two_vertex_strand_def)
  have t: "tangents two_vertex_strand \<noteq> [] \<Longrightarrow>
           length (tangents two_vertex_strand) = length (vertices two_vertex_strand)"
    by (simp add: two_vertex_strand_def)
  have i: "indices two_vertex_strand \<noteq> [] \<Longrightarrow>
           length (indices two_vertex_strand) = unat (get_segment_count two_vertex_strand * 2)"
    by (simp add: two_vertex_strand_def get_segment_count_def get_vertex_count_def get_strand_count_def)
  have d: "\<And>e :: Error. \<not> (\<lambda>e. False) e" by simp
  from save_load_roundtrip [of two_vertex_strand "\<lambda>e. False" blank_header 5,
      OF two_vertex_strand_valid d s t i]
  obtain a1 f b where "save (\<lambda>e. False) two_vertex_strand = (a1, Some f)"
    "b = construct (Some f) blank_header 5" "succeeded b"
    "segments b = segments two_vertex_strand" "vertices b = vertices two_vertex_strand"
    "thickness b = thickness two_vertex_strand" "indices b = indices two_vertex_strand"
    "file_header b = file_header a1"
    "strand_count (file_header a1) = get_strand_count two_vertex_strand"
    "vertex_count (file_header a1) = get_vertex_count two_vertex_strand"
    by blast
  then show ?thesis
    by (simp add: two_vertex_strand_def get_strand_count_def get_vertex_count_def)
qed

lemma surplus_saved:
  "save (\<lambda>e. False) surplus_tangents =
     (set_error_state NoneError (complete_header surplus_tangents),
      Some \<lparr>file_head = Some (file_header (complete_header surplus_tangents)),
            file_body = vec3_bytes (Vec3 1 2 3) @ vec3_bytes (Vec3 4 5 6) @ vec3_bytes (Vec3 7 8 9)\<rparr>)"
  by (simp add: save_def Let_def format_is_valid_def valid_signature_def complete_header_header
      has_vertices_def has_thickness_def has_transparency_def has_color_def
      write_segments_def write_vertices_def write_thickness_def
      write_transparancy_def write_color_def write_tangents_def write_indices_def
      write_field_def surplus_tangents_def)

text \<open>
  Claim C1 as stated, for every asset that \<open>format_is_valid\<close> accepts, fails: the check
  does not look at the tangents. An asset with one vertex and two tangents is saved with
  both tangents, and loading the file succeeds with one tangent.
\<close>

theorem roundtrip_truncates_surplus_tangents:
  "format_is_valid (complete_header surplus_tangents) \<and>
   (\<exists>a1 f. save (\<lambda>e. False) surplus_tangents = (a1, Some f) \<and> succeeded a1 \<and>
      succeeded (construct (Some f) blank_header 0) \<and>
      tangents (construct (Some f) blank_header 0) = [Vec3 4 5 6] \<and>
      tangents surplus_tangents = [Vec3 4 5 6, Vec3 7 8 9])"
proof -
  let ?c = "complete_header surplus_tangents"
  let ?h = "file_header ?c"
  let ?B0 = "(new_style blank_header 0)\<lparr>file_header := ?h\<rparr>"
  let ?B2 = "?B0\<lparr>vertices := [Vec3 1 2 3]\<rparr>"
  let ?B6 = "?B2\<lparr>tangents := [Vec3 4 5 6]\<rparr>"
  note ch = complete_header_header [of surplus_tangents]
  have arrays: "segments surplus_tangents = []" "vertices surplus_tangents = [Vec3 1 2 3]"
    "thickness surplus_tangents = []" "transparency surplus_tangents = []"
    "color surplus_tangents = []" "tangents surplus_tangents = [Vec3 4 5 6, Vec3 7 8 9]"
    "indices surplus_tangents = []"
    by (simp_all add: surplus_tangents_def)
  have v: "format_is_valid ?c"
    by (simp add: format_is_valid_def valid_signature_def ch has_vertices_def has_thickness_def
        has_transparency_def has_color_def arrays)
  have gv: "get_vertex_count surplus_tangents = 1"
    by (simp add: get_vertex_count_def arrays)
  have vcount: "unat (vertex_count ?h) = 1"
    by (simp add: ch gv)
  have r1: "read_segments bs ?B0 = (True, ?B0, bs)" for bs
    by (simp add: read_segments_def ch arrays)
  have r2: "read_vertices (vec3_bytes (Vec3 1 2 3) @ rest) ?B0 = (True, ?B2, rest)" for rest
    using read_vertices_written [of ?B0 "[Vec3 1 2 3]" rest]
    by (simp add: ch arrays gv new_style_def)
  have r3: "read_thickness bs ?B2 = (True, ?B2, bs)" for bs
    by (simp add: read_thickness_def ch arrays)
  have r4: "read_transparancy bs ?B2 = (True, ?B2, bs)" for bs
    by (simp add: read_transparancy_def ch arrays)
  have r5: "read_color bs ?B2 = (True, ?B2, bs)" for bs
    by (simp add: read_color_def ch arrays)
  have "read_field 12 vec3_of_bytes vec3_bytes (concat (map vec3_bytes [Vec3 4 5 6]) @ rest)
          (resize (unat (vertex_count (file_header ?B2))) (Vec3 0 0 0) (tangents ?B2))
        = (True, [Vec3 4 5 6], rest)" for rest
    by (rule read_field_written) (simp_all add: vec3_roundtrip ch gv)
  then have r6: "read_tangents (vec3_bytes (Vec3 4 5 6) @ rest) ?B2 = (True, ?B6, rest)" for rest
    by (simp add: read_tangents_def ch arrays)
  have r7: "read_indices bs ?B6 = (True, ?B6, bs)" for bs
    by (simp add: read_indices_def ch arrays)
  have sig: "valid_signature ?B0" "valid_signature ?B6"
    by (simp_all add: valid_signature_def ch)
  have valid: "format_is_valid ?B6"
    unfolding format_is_valid_def has_vertices_def has_thickness_def has_transparency_def
      has_color_def
    using sig(2) by (simp add: new_style_def)
  have "construct (Some \<lparr>file_head = Some ?h,
            file_body = vec3_bytes (Vec3 1 2 3) @ vec3_bytes (Vec3 4 5 6) @ vec3_bytes (Vec3 7 8 9)\<rparr>)
          blank_header 0 = set_error_state NoneError ?B6"
    using sig(1) valid by (simp add: construct_def load_def Let_def r1 r2 r3 r4 r5 r6 r7)
  then show ?thesis
    using v arrays(6) by (simp add: surplus_saved succeeded_def set_error_state_def)
qed


section \<open>Shading\<close>

lemma shade_hit_cases:
  "shade_hit camera occluded shadows_off n =
     (if shadows_off then Vec4 (lighting camera n) 1
      else if occluded then vec4_add ambient (Vec4 (vec_scale (lighting camera n) (1 / 2)) 0)
      else ambient)"
  by (simp add: shade_hit_def lighting_def ambient_def Let_def)

lemma occluded_by_any_hit:
  "fst (occluded_by scene (Ray p d e)) = any_hit scene (ray_part (Ray p d e))"
  by (simp add: occluded_by_def rtcOccluded1_def is_occluded_def Ray_def Let_def)

text \<open>
  Claim C2 on the code. For a pixel whose primary ray hits the hair, with shadows on, the
  pixel gets the ambient colour plus half the Kajiya-Kay term exactly when the shadow ray
  is occluded, and the ambient colour alone when the shadow ray is free: the test that
  guards the lighting term is \<open>occluded_by(...) || shadows_off\<close>, where the claim asks
  for the unoccluded case. (With shadows off the term replaces the colour at full weight,
  see \<open>shade_hit_cases\<close>.)
\<close>

theorem draw_lights_the_occluded_hits:
  assumes "nearest_hit scene (ray_part (primary_ray camera i j)) = Some (t, h)"
    and "geomID h \<noteq> RTC_INVALID_GEOMETRY_ID"
    and "point = vec_add (get_origin (primary_ray camera i j))
                   (vec_scale (get_direction (primary_ray camera i j)) t)"
  shows "draw_pixel scene camera False epsilon i j =
           Some (Some (to_pixel
             (if any_hit scene (ray_part (Ray point light epsilon))
              then vec4_add ambient (Vec4 (vec_scale (lighting camera (Ng h)) (1 / 2)) 0)
              else ambient)))"
proof -
  let ?r = "primary_ray camera i j"
  let ?r' = "\<lparr>ray_part = (ray_part ?r)\<lparr>tfar := Finite t\<rparr>, hit_part = h\<rparr>"
  have i: "intersects scene ?r = (True, ?r')"
    using assms(1,2) by (simp add: intersects_def rtcIntersect1_def hit_surface_def Let_def)
  have p: "get_intersection_point ?r' = Some point"
    using assms(3) by (simp add: get_intersection_point_def get_origin_def get_direction_def)
  have t: "get_tangent ?r' = Ng h"
    by (simp add: get_tangent_def get_normal_def)
  obtain occ sr where o: "occluded_by scene (Ray point light epsilon) = (occ, sr)"
    by (cases "occluded_by scene (Ray point light epsilon)")
  then have occ: "occ = any_hit scene (ray_part (Ray point light epsilon))"
    using occluded_by_any_hit [of scene point light epsilon] by simp
  have "draw_pixel scene camera False epsilon i j =
          Some (Some (to_pixel (shade_hit camera occ False (Ng h))))"
    using i p t o unfolding draw_pixel_def primary_ray_def Let_def by simp
  then show ?thesis by (simp add: shade_hit_cases occ)
qed

theorem draw_lights_the_occluded_hits_witness:
  "draw_pixel (wall_scene True) facing_camera False (1 / 1000) 0 0 =
     Some (Some (to_pixel (vec4_add ambient
        (Vec4 (vec_scale (lighting facing_camera (Vec3 0 1 0)) (1 / 2)) 0))))
   \<and> draw_pixel (wall_scene False) facing_camera False (1 / 1000) 0 0 =
     Some (Some (to_pixel ambient))"
proof -
  have g: "(0 :: u32) \<noteq> RTC_INVALID_GEOMETRY_ID" by (simp add: RTC_INVALID_GEOMETRY_ID_def)
  have "draw_pixel (wall_scene b) facing_camera False (1 / 1000) 0 0 =
     Some (Some (to_pixel (if b then vec4_add ambient
        (Vec4 (vec_scale (lighting facing_camera (Vec3 0 1 0)) (1 / 2)) 0) else ambient)))" for b
    using draw_lights_the_occluded_hits [of "wall_scene b" facing_camera 0 0 1
        "\<lparr>Ng = Vec3 0 1 0, hit_u = 0, hit_v = 0, primID = 0, geomID = 0\<rparr>" _ "1 / 1000"] g
    by (simp add: wall_scene_def)
  from this [of True] this [of False] show ?thesis by simp
qed


section \<open>Voxelization\<close>

lemma diagonal_box:
  "get_bounding_box diagonal_strand =
     \<lparr>aabb_origin = Vec3 0 0 0, aabb_radius = sqrt 3, aabb_size = Vec3 1 1 1, aabb_volume = 1\<rparr>"
  by (simp add: diagonal_strand_def get_bounding_box_def generate_bounding_box_def
      example_style_def grow_aabb_def Let_def vec_sub_def vec_length_def vec_dot_def)

lemma quantize_voxel_empty: "quantize_voxel t 0 = None"
  by (simp add: quantize_voxel_def)

lemma finalize_tangents_empty_voxel:
  "i < length dens \<Longrightarrow> dens ! i = 0 \<Longrightarrow> finalize_tangents dens precise ! i = None"
  by (simp add: finalize_tangents_def quantize_voxel_empty)

lemma diagonal_arrays:
  "vertices diagonal_strand = [Vec3 0 0 0, Vec3 1 1 1]"
  "tangents diagonal_strand = [Vec3 1 0 0, Vec3 1 0 0]"
  "indices diagonal_strand = [0, 1]"
  by (simp_all add: diagonal_strand_def generate_bounding_box_def example_style_def
      split: prod.splits)

lemma diagonal_vertex_count: "unat (get_vertex_count diagonal_strand) = 2"
  by (simp add: get_vertex_count_def diagonal_arrays)

lemma replicate_six: "replicate 6 x = [x, x, x, x, x, x]"
  by (simp add: eval_nat_numeral)

lemma list_update_Cons_numeral:
  "(x # xs)[numeral v := y] = x # xs[numeral v - 1 := y]"
  by (simp add: numeral_eq_Suc)

lemma voxelize_vertices_diagonal: "voxelize_vertices 3 2 1 diagonal_strand = Some
       \<lparr>resolution = Vec3 3 2 1,
          bounds =
            \<lparr>aabb_origin = Vec3 0 0 0, aabb_radius = sqrt 3,
               aabb_size = Vec3 1 1 1, aabb_volume = 1\<rparr>,
          densities = [1, 0, 0, 0, 0, 1],
          voxel_tangents =
            [Some (127, 0, 0, 0), None, None, None, None,
             Some (127, 0, 0, 0)]\<rparr>"
  apply (simp add: voxelize_vertices_def degenerate_grid_def diagonal_box Let_def vec_div_def diagonal_arrays
     diagonal_vertex_count upt_conv_Cons elem_at_def vec_sub_def clamp_voxel_def
     voxel_position_def splat_def vec_add_def replicate_six list_update_Cons_numeral)
  apply (simp add: finalize_tangents_def upt_conv_Cons quantize_voxel_def quantize_def)
  done

lemma walk_segment_3:
  "walk_segment 3 r d res w h t st = walk_segment (Suc (Suc (Suc 0))) r d res w h t st"
  by (simp add: numeral_3_eq_3)

lemma voxelize_segments_diagonal: "voxelize_segments 3 2 1 diagonal_strand = Some
       \<lparr>resolution = Vec3 3 2 1,
          bounds =
            \<lparr>aabb_origin = Vec3 0 0 0, aabb_radius = sqrt 3,
               aabb_size = Vec3 1 1 1, aabb_volume = 1\<rparr>,
          densities = [1, 1, 0, 0, 0, 1],
          voxel_tangents =
            [Some (127, 0, 0, 0), Some (127, 0, 0, 0), None, None, None,
             Some (127, 0, 0, 0)]\<rparr>"
  apply (simp add: voxelize_segments_def degenerate_grid_def diagonal_box Let_def vec_div_def diagonal_arrays
     upt_conv_Cons elem_at_def vec_sub_def)
  apply (simp add: walk_segment_3 clamp_voxel_def voxel_position_def splat_def vec_add_def
     replicate_six list_update_Cons_numeral)
  apply (simp add: finalize_tangents_def upt_conv_Cons quantize_voxel_def quantize_def)
  done

text \<open>
  Claim C8 on the code, for a strand from \<open>(0, 0, 0)\<close> to \<open>(1, 1, 1)\<close> in a grid of
  3 by 2 by 1 voxels. Both variants leave voxels with density zero, and the finalization
  pass gives them no defined tangent (it divides the summed tangent by a density of zero),
  where the claim asks for a stored zero tangent.
\<close>

theorem empty_voxels_get_no_tangent:
  "(\<exists>v. voxelize_vertices 3 2 1 diagonal_strand = Some v \<and>
        densities v ! 1 = 0 \<and> voxel_tangents v ! 1 = None \<and>
        voxel_tangents v ! 1 \<noteq> Some (0, 0, 0, 0)) \<and>
   (\<exists>v. voxelize_segments 3 2 1 diagonal_strand = Some v \<and>
        densities v ! 2 = 0 \<and> voxel_tangents v ! 2 = None \<and>
        voxel_tangents v ! 2 \<noteq> Some (0, 0, 0, 0))"
  unfolding voxelize_vertices_diagonal voxelize_segments_diagonal by simp


end
